theory Spec2Isabelle
  imports Complex_Main "HOL-Library.Log_Nat"
begin

section \<open>Round settlement of the prediction arena\<close>

text \<open>
  The development follows four source modules: the simulated-stake settlement
  (\<^verbatim>\<open>src/lib/sim-settlement.ts\<close> over \<^verbatim>\<open>src/lib/sim-ledger.ts\<close>), the custody ledger
  (\<^verbatim>\<open>round-ledger\<close>, found as \<^verbatim>\<open>src/unnamed/part_017\<close>), the custody settlement
  (\<^verbatim>\<open>settlement\<close>, found as \<^verbatim>\<open>src/unnamed/part_014\<close>) and the entry submission handler
  (\<^verbatim>\<open>src/app/api/entries/route.ts\<close>). The oracle library (\<^verbatim>\<open>oracle\<close>, the second document
  of \<^verbatim>\<open>src/unnamed/part_015\<close>) is used by all of them.

  Conventions of the embedding.
  \<^item> Amounts (cents, lamports) and millisecond timestamps are JavaScript numbers that hold
    integers; they are modelled as \<^typ>\<open>int\<close>. Sums and differences of amounts are exact as
    long as they stay below \<open>2^53\<close>, the range in which a double represents every integer.
  \<^item> A pro-rata share and the fee are \<^verbatim>\<open>Math.floor((a * b) / c)\<close>: a product and a quotient
    of doubles, each rounded to the nearest double. For lamports the product of two valid
    amounts exceeds \<open>2^53\<close>, so the custody settlement is modelled with the rounding
    written out (\<open>mulDivFloor\<close> below). For the cents of the simulated stakes (a stake is
    at most 25000 cents) the products stay below \<open>2^53\<close> unless the pool exceeds
    \<open>3 \<times> 10^11\<close> cents; the sim settlement is modelled for this range, where
    \<^verbatim>\<open>Math.floor((a * b) / c)\<close> is \<^term>\<open>(div)\<close> on \<^typ>\<open>int\<close> (lemma \<open>mulDivFloor_exact\<close>: the
    double computation yields the integer quotient there).
  \<^item> Oracle prices are finite doubles and only ever compared; they are modelled as \<^typ>\<open>rat\<close>
    (the value \<^verbatim>\<open>NaN\<close> is not represented).
  \<^item> An \<^verbatim>\<open>async\<close> function that may throw returns an \<^typ>\<open>'a option\<close> or a sum whose
    \<^term>\<open>Inl\<close> carries the error; a function that changes a store takes the store and
    returns the new one.
  \<^item> A JavaScript \<^verbatim>\<open>Map\<close> is an association list in insertion order; \<^verbatim>\<open>Map.set\<close> on a
    key that is present replaces the value in place.
\<close>

subsection \<open>Shared types\<close>

datatype Direction = UP | DOWN

datatype Mode = WIN | REFUND

type_synonym jsmap = "(string \<times> int) list"

fun map_set :: "string \<Rightarrow> int \<Rightarrow> jsmap \<Rightarrow> jsmap" where
  "map_set k v [] = [(k, v)]"
| "map_set k v ((k', v') # m) = (if k' = k then (k, v) # m else (k', v') # map_set k v m)"


definition FEE_BPS :: int where
  "FEE_BPS = 600"

subsection \<open>Arithmetic on doubles\<close>

text \<open>
  A finite double is a rational number. The result of an arithmetic operation is the exact
  result rounded to the nearest number with a 53-bit significand, a tie going to the even
  significand (IEEE 754 binary64; overflow and subnormal numbers do not occur for the
  amounts at hand). \<open>binade x\<close> is the exponent \<open>e\<close> with \<open>2^e \<le> x < 2^(e+1)\<close> for positive
  \<open>x\<close>, and \<open>ulp x\<close> the distance between neighbouring doubles at \<open>x\<close>.
\<close>

definition roundHalfEven :: "rat \<Rightarrow> int" where
  "roundHalfEven y =
     (let f = \<lfloor>y\<rfloor>; r = y - of_int f
      in if r < 1 / 2 then f else if 1 / 2 < r then f + 1 else if even f then f else f + 1)"

definition binade :: "rat \<Rightarrow> int" where
  "binade x = (if 1 \<le> x then bitlen \<lfloor>x\<rfloor> - 1 else - bitlen (\<lceil>1 / x\<rceil> - 1))"

definition ulp :: "rat \<Rightarrow> rat" where
  "ulp x = 2 powi (binade \<bar>x\<bar> - 52)"

definition roundDouble :: "rat \<Rightarrow> rat" where
  "roundDouble x = (if x = 0 then 0 else of_int (roundHalfEven (x / ulp x)) * ulp x)"

text \<open>
  \<^verbatim>\<open>Math.floor((a * b) / c)\<close> for numbers \<open>a\<close>, \<open>b\<close>, \<open>c\<close> that hold integers: the product is
  rounded, then the quotient.
\<close>

definition mulDivFloor :: "int \<Rightarrow> int \<Rightarrow> int \<Rightarrow> int" where
  "mulDivFloor a b c = \<lfloor>roundDouble (roundDouble (of_int a * of_int b) / of_int c)\<rfloor>"

subsection \<open>Simulated stakes: \<^verbatim>\<open>sim-ledger.ts\<close>\<close>

record SimEntry =
  entryId :: string
  roundId :: string
  market :: string
  feedId :: string
  roundStartMs :: int
  roundEndMs :: int
  wallet :: string
  direction :: Direction
  stakeBucks :: int
  joinedAtMs :: int

record SimRoundSettlement =
  mode :: Mode
  winnerSide :: "Direction option"
  startPrice :: rat
  endPrice :: rat

record SimRoundSettlementSnapshot =
  settlement :: SimRoundSettlement
  payoutsByEntryId :: jsmap
  feeCents :: int
  settledAtMs :: int

text \<open>
  Which database the sim ledger finds: \<^verbatim>\<open>getD1Database\<close>, then \<^verbatim>\<open>getSqliteDatabase\<close>,
  then \<^verbatim>\<open>getPgPool\<close>. Entries can be read from all three; settlement records only from
  the first two, every other case ends in \<^verbatim>\<open>requireDbBackend\<close>, which throws.
\<close>

datatype SimBackend = D1 | Sqlite | Pg | Unavailable

datatype SimError = BackendUnavailable

record SimStore =
  backend :: SimBackend
  sim_entries :: "SimEntry list"
  sim_round_settlements :: "string \<rightharpoonup> SimRoundSettlementSnapshot"

text \<open>
  \<^verbatim>\<open>SELECT ... WHERE round_id IN (...) ORDER BY joined_at_ms DESC\<close>. The table is the list of
  rows in insertion order. The query has no second sort key: rows with equal
  \<^verbatim>\<open>joined_at_ms\<close> are kept in table order here (SQL leaves their order open).
\<close>

definition orderByJoinedAtDesc :: "SimEntry list \<Rightarrow> SimEntry list" where
  "orderByJoinedAtDesc rows = sort_key (\<lambda>e. - joinedAtMs e) rows"

definition readSimEntriesForRoundIds :: "string list \<Rightarrow> SimStore \<Rightarrow> SimError + SimEntry list" where
  "readSimEntriesForRoundIds roundIds st =
     (if roundIds = [] then Inr []
      else let uniqueRoundIds = remdups roundIds in
        (case backend st of
           Unavailable \<Rightarrow> Inl BackendUnavailable
         | _ \<Rightarrow> Inr (orderByJoinedAtDesc
                     (filter (\<lambda>e. roundId e \<in> set uniqueRoundIds) (sim_entries st)))))"

definition readSimRoundSettlement ::
  "string \<Rightarrow> SimStore \<Rightarrow> SimError + SimRoundSettlementSnapshot option" where
  "readSimRoundSettlement rid st =
     (case backend st of
        D1 \<Rightarrow> Inr (sim_round_settlements st rid)
      | Sqlite \<Rightarrow> Inr (sim_round_settlements st rid)
      | _ \<Rightarrow> Inl BackendUnavailable)"

text \<open>\<^verbatim>\<open>INSERT ... ON CONFLICT(round_id) DO NOTHING\<close>: the first record of a round stays.\<close>

definition writeSimRoundSettlement ::
  "string \<Rightarrow> SimRoundSettlementSnapshot \<Rightarrow> SimStore \<Rightarrow> SimError + SimStore" where
  "writeSimRoundSettlement rid rec st =
     (case backend st of
        D1 \<Rightarrow> Inr (case sim_round_settlements st rid of
                      None \<Rightarrow> st\<lparr>sim_round_settlements := (sim_round_settlements st)(rid \<mapsto> rec)\<rparr>
                    | Some _ \<Rightarrow> st)
      | Sqlite \<Rightarrow> Inr (case sim_round_settlements st rid of
                      None \<Rightarrow> st\<lparr>sim_round_settlements := (sim_round_settlements st)(rid \<mapsto> rec)\<rparr>
                    | Some _ \<Rightarrow> st)
      | _ \<Rightarrow> Inl BackendUnavailable)"

subsection \<open>Simulated stakes: \<^verbatim>\<open>sim-settlement.ts\<close>\<close>

text \<open>
  \<^verbatim>\<open>proRataCents\<close>. A recipient is the pair of its \<^verbatim>\<open>entryId\<close> and its \<^verbatim>\<open>cents\<close>. The
  remainder goes to \<^verbatim>\<open>prepared[0]\<close>; the result is the \<^verbatim>\<open>Map\<close> filled by one \<^verbatim>\<open>set\<close> per
  prepared item.
\<close>

fun addRemainder :: "int \<Rightarrow> jsmap \<Rightarrow> jsmap" where
  "addRemainder remainder [] = []"
| "addRemainder remainder ((k, c) # rest) =
     (if remainder > 0 then (k, c + remainder) # rest else (k, c) # rest)"

definition prepared :: "(string \<times> int) list \<Rightarrow> int \<Rightarrow> int \<Rightarrow> jsmap" where
  "prepared recipients distributableCents inputTotalCents =
     map (\<lambda>item. (fst item, (distributableCents * snd item) div inputTotalCents)) recipients"

definition proRataCents :: "(string \<times> int) list \<Rightarrow> int \<Rightarrow> int \<Rightarrow> jsmap" where
  "proRataCents recipients distributableCents inputTotalCents =
     (if distributableCents \<le> 0 \<or> inputTotalCents \<le> 0 \<or> recipients = [] then []
      else let paid = sum_list (map snd (prepared recipients distributableCents inputTotalCents));
               remainder = distributableCents - paid
           in foldl (\<lambda>allocations item. map_set (fst item) (snd item) allocations) []
                (addRemainder remainder (prepared recipients distributableCents inputTotalCents)))"

text \<open>
  The two fetch functions of the oracle library send a request to the price service:
  \<^verbatim>\<open>fetchOracleSnapshotAtTimestamp\<close> asks for the price at a second, and
  \<^verbatim>\<open>fetchOracleSnapshot\<close> for the latest price (or hands out a cached one). What the
  service answers is not determined by the code, so the two functions are parameters here.
  \<^term>\<open>None\<close> stands for a call that throws; of a snapshot only the price is used.
\<close>

record Oracle =
  fetchOracleSnapshotAtTimestamp :: "string \<Rightarrow> int \<Rightarrow> rat option"
  fetchOracleSnapshot :: "string \<Rightarrow> rat option"

definition offsets :: "int list" where
  "offsets = [0, -1, -2, -5, -10, 1, 2, 5, 10]"

fun searchOffsets :: "Oracle \<Rightarrow> string \<Rightarrow> int \<Rightarrow> int list \<Rightarrow> rat option" where
  "searchOffsets orc mkt unixTimestampSec [] = None"
| "searchOffsets orc mkt unixTimestampSec (offset # rest) =
     (case fetchOracleSnapshotAtTimestamp orc mkt (max 0 (unixTimestampSec + offset)) of
        Some price \<Rightarrow> Some price
      | None \<Rightarrow> searchOffsets orc mkt unixTimestampSec rest)"

definition fetchSnapshotNearTimestamp :: "Oracle \<Rightarrow> string \<Rightarrow> int \<Rightarrow> rat option" where
  "fetchSnapshotNearTimestamp orc mkt unixTimestampSec =
     (case searchOffsets orc mkt unixTimestampSec offsets of
        Some price \<Rightarrow> Some price
      | None \<Rightarrow> fetchOracleSnapshot orc mkt)"

text \<open>
  \<^verbatim>\<open>Math.round(item.stakeBucks * 100)\<close>; stakes are whole bucks (the tier set of the join
  handler), so rounding changes nothing.
\<close>

definition stakeCents :: "SimEntry \<Rightarrow> int" where
  "stakeCents item = stakeBucks item * 100"

definition recipientsOf :: "SimEntry list \<Rightarrow> (string \<times> int) list" where
  "recipientsOf entries = map (\<lambda>item. (entryId item, stakeCents item)) entries"

definition totalCentsOf :: "SimEntry list \<Rightarrow> int" where
  "totalCentsOf entries = sum_list (map stakeCents entries)"

text \<open>The decision of \<^verbatim>\<open>settleRound\<close>: \<^verbatim>\<open>mode\<close> and \<^verbatim>\<open>winnerSide\<close>.\<close>

definition decideSim :: "SimEntry list \<Rightarrow> rat \<Rightarrow> rat \<Rightarrow> Mode \<times> Direction option" where
  "decideSim entries startP endP =
     (let up = filter (\<lambda>item. direction item = UP) entries;
          down = filter (\<lambda>item. direction item = DOWN) entries
      in if length up = 0 \<or> length down = 0 then (REFUND, None)
         else if endP > startP then (WIN, Some UP)
         else if endP < startP then (WIN, Some DOWN)
         else (REFUND, None))"

definition marketOf :: "SimEntry list \<Rightarrow> string" where
  "marketOf entries = (case entries of [] \<Rightarrow> ''SOL'' | e # _ \<Rightarrow> market e)"

definition lockTimestampSec :: "int \<Rightarrow> SimEntry list \<Rightarrow> int" where
  "lockTimestampSec now entries =
     ((case entries of [] \<Rightarrow> now | e # _ \<Rightarrow> roundStartMs e) + 60000) div 1000"

definition roundEndSec :: "int \<Rightarrow> SimEntry list \<Rightarrow> int" where
  "roundEndSec now entries = (case entries of [] \<Rightarrow> now | e # _ \<Rightarrow> roundEndMs e) div 1000"

definition settleRound :: "Oracle \<Rightarrow> int \<Rightarrow> SimEntry list \<Rightarrow> SimRoundSettlementSnapshot option" where
  "settleRound orc now entries =
     (case fetchSnapshotNearTimestamp orc (marketOf entries) (lockTimestampSec now entries) of
        None \<Rightarrow> None
      | Some startP \<Rightarrow>
         (case fetchSnapshotNearTimestamp orc (marketOf entries) (roundEndSec now entries) of
            None \<Rightarrow> None
          | Some endP \<Rightarrow>
             (let up = filter (\<lambda>item. direction item = UP) entries;
                  down = filter (\<lambda>item. direction item = DOWN) entries;
                  totalCents = totalCentsOf entries;
                  isRefundRound = (length up = 0 \<or> length down = 0 \<or> endP = startP);
                  fee = (if isRefundRound then 0 else (totalCents * FEE_BPS) div 10000);
                  distributableCents = max 0 (totalCents - fee);
                  decision = decideSim entries startP endP;
                  winners = filter (\<lambda>item. Some (direction item) = snd decision) entries;
                  payouts =
                    (if fst decision = REFUND
                     then proRataCents (recipientsOf entries) distributableCents totalCents
                     else proRataCents (recipientsOf winners) distributableCents
                            (totalCentsOf winners))
              in Some \<lparr> settlement = \<lparr> mode = fst decision, winnerSide = snd decision,
                                        startPrice = startP, endPrice = endP \<rparr>,
                         payoutsByEntryId = payouts,
                         feeCents = fee,
                         settledAtMs = now \<rparr>)))"

definition buildRefundSettlement :: "int \<Rightarrow> SimEntry list \<Rightarrow> SimRoundSettlementSnapshot" where
  "buildRefundSettlement now entries =
     (let totalCents = totalCentsOf entries;
          fee = 0;
          distributableCents = max 0 (totalCents - fee)
      in \<lparr> settlement = \<lparr> mode = REFUND, winnerSide = None, startPrice = 0, endPrice = 0 \<rparr>,
           payoutsByEntryId = proRataCents (recipientsOf entries) distributableCents totalCents,
           feeCents = fee,
           settledAtMs = now \<rparr>)"

definition settleRoundSafe :: "Oracle \<Rightarrow> int \<Rightarrow> SimEntry list \<Rightarrow> SimRoundSettlementSnapshot" where
  "settleRoundSafe orc now entries =
     (case settleRound orc now entries of
        Some settled \<Rightarrow> settled
      | None \<Rightarrow> buildRefundSettlement now entries)"

text \<open>
  The rows whose stakes \<^verbatim>\<open>settleRound\<close> hands to \<^verbatim>\<open>proRataCents\<close>: every row of a refund
  round, the rows on the winning side otherwise, in the order given.
\<close>

definition recipientRows :: "SimRoundSettlementSnapshot \<Rightarrow> SimEntry list \<Rightarrow> SimEntry list" where
  "recipientRows snap rows =
     (if mode (settlement snap) = REFUND then rows
      else filter (\<lambda>item. Some (direction item) = winnerSide (settlement snap)) rows)"

text \<open>
  \<^verbatim>\<open>settleSimRoundOnce\<close>, run with no other run of the same round in flight (the
  \<^verbatim>\<open>inFlightSettlements\<close> map only hands a second caller the promise of the first). The
  result is the returned snapshot (\<^term>\<open>None\<close> is \<^verbatim>\<open>null\<close>) or the error thrown, and the
  store after the call.
\<close>

definition settleSimRoundOnce ::
  "Oracle \<Rightarrow> int \<Rightarrow> string \<Rightarrow> SimStore \<Rightarrow> (SimError + SimRoundSettlementSnapshot option) \<times> SimStore" where
  "settleSimRoundOnce orc now rid st =
     (case readSimRoundSettlement rid st of
        Inl err \<Rightarrow> (Inl err, st)
      | Inr (Some existing) \<Rightarrow> (Inr (Some existing), st)
      | Inr None \<Rightarrow>
         (case readSimEntriesForRoundIds [rid] st of
            Inl err \<Rightarrow> (Inl err, st)
          | Inr fullRoundEntries \<Rightarrow>
             if length fullRoundEntries = 0 then (Inr None, st)
             else (let settled = settleRoundSafe orc now fullRoundEntries in
               (case writeSimRoundSettlement rid settled st of
                  Inl err \<Rightarrow> (Inl err, st)
                | Inr st' \<Rightarrow>
                   (case readSimRoundSettlement rid st' of
                      Inl err \<Rightarrow> (Inl err, st')
                    | Inr (Some canonical) \<Rightarrow> (Inr (Some canonical), st')
                    | Inr None \<Rightarrow> (Inr (Some settled), st'))))))"

subsection \<open>Custody ledger: \<^verbatim>\<open>round-ledger\<close>\<close>

record LedgerEntry =
  roundId :: string
  market :: "string option"
  feedId :: "string option"
  roundStartMs :: int
  roundEndMs :: int
  wallet :: string
  direction :: Direction
  stakeUsd :: int
  stakeLamports :: int
  signature :: string
  joinedAtMs :: rat
  startPrice :: rat
  clientIp :: "string option"

text \<open>The field \<^verbatim>\<open>id\<close> of a transfer is \<open>transferId\<close> here; it is optional in a receipt.\<close>

record TransferRecord =
  transferId :: "string option"
  wallet :: string
  lamports :: int
  signature :: string

datatype TransferKind = fee | payout

record PlannedTransfer =
  transferId :: string
  wallet :: string
  lamports :: int
  kind :: TransferKind

datatype SettlementState = PROCESSING | COMPLETED

record RoundSettlement =
  roundId :: string
  state :: "SettlementState option"
  settledAtMs :: int
  mode :: Mode
  winnerSide :: "Direction option"
  startPrice :: rat
  endPrice :: rat
  feeLamports :: int
  plannedTransfers :: "PlannedTransfer list option"
  transfers :: "TransferRecord list"

record LedgerData =
  entries :: "LedgerEntry list"
  settlements :: "RoundSettlement list"

record JoinAttempt =
  attemptWallet :: string
  attemptIp :: "string option"
  created_at :: int

text \<open>
  The store behind the ledger module. \<open>pool\<close> says whether \<^verbatim>\<open>getPgPool\<close> returns a pool
  (\<^verbatim>\<open>DATABASE_URL\<close> is set); without one the data live in \<^verbatim>\<open>data/ledger.json\<close>. \<open>locks\<close>
  is the table \<^verbatim>\<open>round_processing_locks\<close> and \<open>join_attempts\<close> the table of that name; only
  the pool has them. Without a pool the join attempts are kept in the two maps
  \<^verbatim>\<open>inMemoryWalletJoinAttempts\<close> and \<^verbatim>\<open>inMemoryIpJoinAttempts\<close> of the module (a key that
  is absent reads as the empty list).
\<close>

record Ledger =
  pool :: bool
  data :: LedgerData
  locks :: "string \<rightharpoonup> int"
  join_attempts :: "JoinAttempt list"
  inMemoryWalletJoinAttempts :: "string \<Rightarrow> int list"
  inMemoryIpJoinAttempts :: "string \<Rightarrow> int list"

datatype LedgerError = ForeignKeyViolation

definition truthy :: "string option \<Rightarrow> bool" where
  "truthy s = (case s of None \<Rightarrow> False | Some v \<Rightarrow> v \<noteq> [])"

fun updateFirst ::
  "(RoundSettlement \<Rightarrow> bool) \<Rightarrow> (RoundSettlement \<Rightarrow> RoundSettlement) \<Rightarrow>
   RoundSettlement list \<Rightarrow> RoundSettlement list" where
  "updateFirst P f [] = []"
| "updateFirst P f (s # ss) = (if P s then f s # ss else s # updateFirst P f ss)"

definition findSettlement :: "string \<Rightarrow> LedgerData \<Rightarrow> RoundSettlement option" where
  "findSettlement rid d = find (\<lambda>item. RoundSettlement.roundId item = rid) (settlements d)"

definition pushTransfer :: "string \<Rightarrow> TransferRecord \<Rightarrow> Ledger \<Rightarrow> Ledger" where
  "pushTransfer rid transfer L =
     L\<lparr>data := (data L)\<lparr>settlements :=
          updateFirst (\<lambda>item. RoundSettlement.roundId item = rid)
            (\<lambda>item. item\<lparr>transfers := transfers item @ [transfer]\<rparr>)
            (settlements (data L))\<rparr>\<rparr>"

text \<open>
  \<^verbatim>\<open>appendSettlementTransfer\<close>. Without a pool the settlement is looked up in the file and
  the receipt pushed unless its (truthy) id or its signature is already among the round's
  receipts. With a pool the row is inserted with \<^verbatim>\<open>ON CONFLICT DO NOTHING\<close> under
  \<^verbatim>\<open>UNIQUE (round_id, transfer_id)\<close>, where a \<^verbatim>\<open>NULL\<close> id never conflicts, and
  \<^verbatim>\<open>signature ... UNIQUE\<close> over the whole table; the round must exist
  (\<^verbatim>\<open>REFERENCES round_settlements\<close>), otherwise the insert fails.
\<close>

definition appendSettlementTransfer ::
  "string \<Rightarrow> TransferRecord \<Rightarrow> Ledger \<Rightarrow> LedgerError + Ledger" where
  "appendSettlementTransfer rid transfer L =
     (if \<not> pool L then
        (case findSettlement rid (data L) of
           None \<Rightarrow> Inr L
         | Some s \<Rightarrow>
            if truthy (TransferRecord.transferId transfer) \<and>
               (\<exists>item \<in> set (transfers s).
                  TransferRecord.transferId item = TransferRecord.transferId transfer)
            then Inr L
            else if \<exists>item \<in> set (transfers s).
                      TransferRecord.signature item = TransferRecord.signature transfer
            then Inr L
            else Inr (pushTransfer rid transfer L))
      else
        (case findSettlement rid (data L) of
           None \<Rightarrow> Inl ForeignKeyViolation
         | Some s \<Rightarrow>
            if TransferRecord.transferId transfer \<noteq> None \<and>
               (\<exists>item \<in> set (transfers s).
                  TransferRecord.transferId item = TransferRecord.transferId transfer)
            then Inr L
            else if \<exists>other \<in> set (settlements (data L)). \<exists>item \<in> set (transfers other).
                      TransferRecord.signature item = TransferRecord.signature transfer
            then Inr L
            else Inr (pushTransfer rid transfer L)))"

definition addRoundSettlement :: "RoundSettlement \<Rightarrow> Ledger \<Rightarrow> Ledger" where
  "addRoundSettlement s L =
     (if \<exists>item \<in> set (settlements (data L)).
           RoundSettlement.roundId item = RoundSettlement.roundId s
      then L
      else L\<lparr>data := (data L)\<lparr>settlements := settlements (data L) @ [s]\<rparr>\<rparr>)"

definition markSettlementCompleted :: "int \<Rightarrow> string \<Rightarrow> Ledger \<Rightarrow> Ledger" where
  "markSettlementCompleted now rid L =
     L\<lparr>data := (data L)\<lparr>settlements :=
          updateFirst (\<lambda>item. RoundSettlement.roundId item = rid)
            (\<lambda>item. item\<lparr>state := Some COMPLETED, RoundSettlement.settledAtMs := now\<rparr>)
            (settlements (data L))\<rparr>\<rparr>"

text \<open>
  \<^verbatim>\<open>tryAcquireRoundProcessingLock\<close>: the upsert takes the row when there is none, or when
  the stored \<^verbatim>\<open>acquired_at_ms\<close> is below \<^verbatim>\<open>now - Math.max(1, staleAfterMs)\<close>. Without a pool
  the function returns \<^verbatim>\<open>true\<close> at once.
\<close>

definition defaultStaleAfterMs :: int where
  "defaultStaleAfterMs = 15 * 60 * 1000"

definition tryAcquireRoundProcessingLock :: "int \<Rightarrow> string \<Rightarrow> int \<Rightarrow> Ledger \<Rightarrow> bool \<times> Ledger" where
  "tryAcquireRoundProcessingLock now rid staleAfterMs L =
     (if \<not> pool L then (True, L)
      else let staleBefore = now - max 1 staleAfterMs in
        (case locks L rid of
           None \<Rightarrow> (True, L\<lparr>locks := (locks L)(rid \<mapsto> now)\<rparr>)
         | Some acquired_at_ms \<Rightarrow>
            if acquired_at_ms < staleBefore
            then (True, L\<lparr>locks := (locks L)(rid \<mapsto> now)\<rparr>)
            else (False, L)))"

definition releaseRoundProcessingLock :: "string \<Rightarrow> Ledger \<Rightarrow> Ledger" where
  "releaseRoundProcessingLock rid L =
     (if \<not> pool L then L else L\<lparr>locks := (locks L)(rid := None)\<rparr>)"

definition hasLedgerEntrySignature :: "string \<Rightarrow> Ledger \<Rightarrow> bool" where
  "hasLedgerEntrySignature sig L =
     (\<exists>item \<in> set (entries (data L)). LedgerEntry.signature item = sig)"

definition addLedgerEntry :: "LedgerEntry \<Rightarrow> Ledger \<Rightarrow> bool \<times> Ledger" where
  "addLedgerEntry entry L =
     (if \<exists>item \<in> set (entries (data L)). LedgerEntry.signature item = LedgerEntry.signature entry
      then (False, L)
      else (True, L\<lparr>data := (data L)\<lparr>entries := entries (data L) @ [entry]\<rparr>\<rparr>))"

text \<open>
  \<^verbatim>\<open>recordJoinAttempt\<close>: without a pool the time is appended to the wallet's list and, for
  a truthy address, to the address's list; with a pool a row is inserted, its
  \<^verbatim>\<open>created_at\<close> being the time of the insert.
\<close>

definition recordJoinAttempt :: "int \<Rightarrow> string \<Rightarrow> string option \<Rightarrow> Ledger \<Rightarrow> Ledger" where
  "recordJoinAttempt now w ip L =
     (if \<not> pool L then
        (let L1 = L\<lparr>inMemoryWalletJoinAttempts :=
                      (inMemoryWalletJoinAttempts L)(w := inMemoryWalletJoinAttempts L w @ [now])\<rparr>
         in case ip of
              Some addr \<Rightarrow>
                if addr \<noteq> [] then
                  L1\<lparr>inMemoryIpJoinAttempts :=
                       (inMemoryIpJoinAttempts L1)(addr := inMemoryIpJoinAttempts L1 addr @ [now])\<rparr>
                else L1
            | None \<Rightarrow> L1)
      else L\<lparr>join_attempts := join_attempts L @
                 [\<lparr>attemptWallet = w, attemptIp = ip, created_at = now\<rparr>]\<rparr>)"

text \<open>
  \<^verbatim>\<open>countRecentJoinAttempts\<close>: without a pool the lists of the wallet and of the address are
  cut down to the times inside the window and stored back; with a pool the rows inside the
  window are counted. The result is the two counts and the store.
\<close>

definition countRecentJoinAttempts ::
  "int \<Rightarrow> string \<Rightarrow> string option \<Rightarrow> int \<Rightarrow> Ledger \<Rightarrow> (nat \<times> nat) \<times> Ledger" where
  "countRecentJoinAttempts now w ip windowSeconds L =
     (let windowMs = max 1 windowSeconds * 1000;
          cutoff = now - windowMs
      in if \<not> pool L then
           (let walletTimes = filter (\<lambda>ts. ts \<ge> cutoff) (inMemoryWalletJoinAttempts L w);
                L1 = L\<lparr>inMemoryWalletJoinAttempts := (inMemoryWalletJoinAttempts L)(w := walletTimes)\<rparr>
            in case ip of
                 Some addr \<Rightarrow>
                   if addr \<noteq> [] then
                     (let ipTimes = filter (\<lambda>ts. ts \<ge> cutoff) (inMemoryIpJoinAttempts L1 addr)
                      in ((length walletTimes, length ipTimes),
                          L1\<lparr>inMemoryIpJoinAttempts := (inMemoryIpJoinAttempts L1)(addr := ipTimes)\<rparr>))
                   else ((length walletTimes, 0), L1)
               | None \<Rightarrow> ((length walletTimes, 0), L1))
         else
           (let walletCount = length (filter (\<lambda>a. attemptWallet a = w \<and> created_at a \<ge> cutoff)
                                        (join_attempts L));
                ipCount = (case ip of
                             Some addr \<Rightarrow>
                               if addr \<noteq> [] then
                                 length (filter (\<lambda>a. attemptIp a = Some addr \<and> created_at a \<ge> cutoff)
                                           (join_attempts L))
                               else 0
                           | None \<Rightarrow> 0)
            in ((walletCount, ipCount), L)))"

subsection \<open>Custody settlement: \<^verbatim>\<open>settlement\<close>\<close>

text \<open>Decimal rendering of a number inside a template string.\<close>

definition digitChar :: "nat \<Rightarrow> char" where
  "digitChar n = ''0123456789'' ! (n mod 10)"

fun showNat :: "nat \<Rightarrow> string" where
  "showNat n = (if n < 10 then [digitChar n] else showNat (n div 10) @ [digitChar n])"

definition showInt :: "int \<Rightarrow> string" where
  "showInt i = (if i < 0 then CHR ''-'' # showNat (nat (- i)) else showNat (nat i))"

record Recipient =
  wallet :: string
  lamports :: int

fun addRemainderFirst :: "int \<Rightarrow> Recipient list \<Rightarrow> Recipient list" where
  "addRemainderFirst remainder [] = []"
| "addRemainderFirst remainder (p # rest) =
     (if remainder > 0 then p\<lparr>Recipient.lamports := Recipient.lamports p + remainder\<rparr> # rest
      else p # rest)"

text \<open>
  The shares of \<^verbatim>\<open>addProRataPayouts\<close> before the remainder is added:
  \<^verbatim>\<open>Math.floor((distributableLamports * winner.lamports) / winnerStakeTotalLamports)\<close>, in
  doubles.
\<close>

definition floorPayouts :: "Recipient list \<Rightarrow> int \<Rightarrow> int \<Rightarrow> Recipient list" where
  "floorPayouts winners distributableLamports winnerStakeTotalLamports =
     map (\<lambda>winner. \<lparr> Recipient.wallet = Recipient.wallet winner,
                      Recipient.lamports =
                        mulDivFloor distributableLamports (Recipient.lamports winner)
                          winnerStakeTotalLamports \<rparr>) winners"

definition addProRataPayouts :: "Recipient list \<Rightarrow> int \<Rightarrow> int \<Rightarrow> Recipient list" where
  "addProRataPayouts winners distributableLamports winnerStakeTotalLamports =
     (if winnerStakeTotalLamports \<le> 0 \<or> distributableLamports \<le> 0 \<or> winners = [] then []
      else let payouts = floorPayouts winners distributableLamports winnerStakeTotalLamports;
               paid = sum_list (map Recipient.lamports payouts);
               remainder = distributableLamports - paid
           in addRemainderFirst remainder payouts)"

text \<open>
  What the settlement run is given from outside: the oracle, the market lookup of the
  oracle library (\<^verbatim>\<open>resolveMarketByFeedId(...).key\<close>, a lookup in the library's table
  \<^verbatim>\<open>MARKET_CONFIGS\<close> with \<^verbatim>\<open>SOL\<close> as default; the settlement only passes the key on to the
  oracle, so the lookup is left open), the two wallets, and the chain call
  \<^verbatim>\<open>sendAndConfirmTransaction\<close>, which yields a signature or throws (\<^term>\<open>None\<close>).
\<close>

record CustodyEnv =
  priceOracle :: Oracle
  resolveMarketByFeedId :: "string option \<Rightarrow> string"
  treasuryWallet :: string
  signerWallet :: string
  sendAndConfirmTransaction :: "Recipient \<Rightarrow> string option"

definition OPEN_ENTRY_SECONDS :: int where
  "OPEN_ENTRY_SECONDS = 60"

definition sumLamports :: "LedgerEntry list \<Rightarrow> int" where
  "sumLamports items = sum_list (map stakeLamports items)"

definition toRecipients :: "LedgerEntry list \<Rightarrow> Recipient list" where
  "toRecipients items =
     map (\<lambda>item. \<lparr> Recipient.wallet = LedgerEntry.wallet item,
                    Recipient.lamports = stakeLamports item \<rparr>) items"

text \<open>The refund recipients: one per wallet, in the order of first appearance.\<close>

definition mergeByWallet :: "LedgerEntry list \<Rightarrow> Recipient list" where
  "mergeByWallet items =
     map (\<lambda>(w, l). \<lparr> Recipient.wallet = w, Recipient.lamports = l \<rparr>)
       (foldl (\<lambda>merged entry.
                 map_set (LedgerEntry.wallet entry)
                   ((case map_of merged (LedgerEntry.wallet entry) of None \<Rightarrow> 0 | Some v \<Rightarrow> v)
                      + stakeLamports entry) merged)
          [] items)"

text \<open>\<^verbatim>\<open>Math.floor((totalLamports * FEE_BPS) / 10_000)\<close>, in doubles.\<close>

definition feeOf :: "LedgerEntry list \<Rightarrow> int" where
  "feeOf items = mulDivFloor (sumLamports items) FEE_BPS 10000"

definition distributableOf :: "LedgerEntry list \<Rightarrow> int" where
  "distributableOf items = max 0 (sumLamports items - feeOf items)"

text \<open>
  The branch of \<^verbatim>\<open>createProcessingSettlement\<close> that fixes \<^verbatim>\<open>mode\<close>, \<^verbatim>\<open>winnerSide\<close> and
  \<^verbatim>\<open>payoutRecipients\<close>. The total is \<^verbatim>\<open>upLamports + downLamports\<close>, which is the sum over
  all entries, a direction being \<^verbatim>\<open>UP\<close> or \<^verbatim>\<open>DOWN\<close>.
\<close>

definition decideCustody ::
  "LedgerEntry list \<Rightarrow> rat \<Rightarrow> rat \<Rightarrow> Mode \<times> Direction option \<times> Recipient list" where
  "decideCustody items startP endP =
     (let up = filter (\<lambda>item. LedgerEntry.direction item = UP) items;
          down = filter (\<lambda>item. LedgerEntry.direction item = DOWN) items;
          upLamports = sumLamports up;
          downLamports = sumLamports down;
          distributable = distributableOf items
      in if upLamports = 0 \<or> downLamports = 0 \<or> endP = startP
         then (let recipients = mergeByWallet items;
                   recipientStakeTotal = sum_list (map Recipient.lamports recipients)
               in (REFUND, None, addProRataPayouts recipients distributable recipientStakeTotal))
         else (let side = (if endP > startP then UP else DOWN);
                   winners = toRecipients (if side = UP then up else down);
                   winnerStakeTotal = sum_list (map Recipient.lamports winners)
               in (WIN, Some side, addProRataPayouts winners distributable winnerStakeTotal)))"

definition planTransfers :: "int \<Rightarrow> string \<Rightarrow> string \<Rightarrow> Recipient list \<Rightarrow> PlannedTransfer list" where
  "planTransfers feeAmount treasury signer payoutRecipients =
     (if feeAmount > 0 \<and> treasury \<noteq> [] \<and> treasury \<noteq> signer
      then [\<lparr> PlannedTransfer.transferId = ''fee-0'', PlannedTransfer.wallet = treasury,
               PlannedTransfer.lamports = feeAmount, kind = fee \<rparr>]
      else [])
     @ map (\<lambda>(index, recipient).
              \<lparr> PlannedTransfer.transferId = ''payout-'' @ showNat index,
                PlannedTransfer.wallet = Recipient.wallet recipient,
                PlannedTransfer.lamports = Recipient.lamports recipient, kind = payout \<rparr>)
         (filter (\<lambda>(index, recipient). \<not> Recipient.lamports recipient \<le> 0)
            (enumerate 0 payoutRecipients))"

text \<open>
  The market and the two seconds for which \<^verbatim>\<open>createProcessingSettlement\<close> asks the oracle:
  \<^verbatim>\<open>market.key\<close>, \<^verbatim>\<open>lockTimestampSec\<close> and \<^verbatim>\<open>Math.floor(roundEndMs / 1000)\<close>, taken from
  the first entry of the round. The end price is asked for first.
\<close>

definition marketKey :: "CustodyEnv \<Rightarrow> LedgerEntry list \<Rightarrow> string" where
  "marketKey env items =
     resolveMarketByFeedId env (case items of [] \<Rightarrow> None | e # _ \<Rightarrow> LedgerEntry.feedId e)"

definition custodyLockSec :: "int \<Rightarrow> LedgerEntry list \<Rightarrow> int" where
  "custodyLockSec now items =
     ((case items of [] \<Rightarrow> now | e # _ \<Rightarrow> LedgerEntry.roundStartMs e)
        + OPEN_ENTRY_SECONDS * 1000) div 1000"

definition custodyEndSec :: "int \<Rightarrow> LedgerEntry list \<Rightarrow> int" where
  "custodyEndSec now items =
     (case items of [] \<Rightarrow> now | e # _ \<Rightarrow> LedgerEntry.roundEndMs e) div 1000"

definition createProcessingSettlement ::
  "CustodyEnv \<Rightarrow> int \<Rightarrow> string \<Rightarrow> LedgerEntry list \<Rightarrow> RoundSettlement option" where
  "createProcessingSettlement env now rid items =
     (case fetchOracleSnapshotAtTimestamp (priceOracle env) (marketKey env items)
             (custodyEndSec now items) of
           None \<Rightarrow> None
         | Some endP \<Rightarrow>
          (case fetchOracleSnapshotAtTimestamp (priceOracle env) (marketKey env items)
                  (custodyLockSec now items) of
             None \<Rightarrow> None
           | Some startP \<Rightarrow>
              (let decision = decideCustody items startP endP in
               Some \<lparr> RoundSettlement.roundId = rid,
                      state = Some PROCESSING,
                      RoundSettlement.settledAtMs = now,
                      RoundSettlement.mode = fst decision,
                      RoundSettlement.winnerSide = fst (snd decision),
                      RoundSettlement.startPrice = startP,
                      RoundSettlement.endPrice = endP,
                      feeLamports = feeOf items,
                      plannedTransfers =
                        Some (planTransfers (feeOf items) (treasuryWallet env) (signerWallet env)
                                (snd (snd decision))),
                      transfers = [] \<rparr>)))"

text \<open>
  \<^verbatim>\<open>sendTransfer\<close> returns the string \<^verbatim>\<open>"skipped"\<close> for a non-positive amount and calls
  the chain otherwise.
\<close>

definition sendTransfer :: "CustodyEnv \<Rightarrow> Recipient \<Rightarrow> string option" where
  "sendTransfer env recipient =
     (if Recipient.lamports recipient \<le> 0 then Some ''skipped''
      else sendAndConfirmTransaction env recipient)"

definition receiptOf :: "PlannedTransfer \<Rightarrow> string \<Rightarrow> TransferRecord" where
  "receiptOf transfer sig =
     \<lparr> TransferRecord.transferId = Some (PlannedTransfer.transferId transfer),
       TransferRecord.wallet = PlannedTransfer.wallet transfer,
       TransferRecord.lamports = PlannedTransfer.lamports transfer,
       TransferRecord.signature = sig \<rparr>"

definition alreadySent :: "RoundSettlement \<Rightarrow> PlannedTransfer \<Rightarrow> bool" where
  "alreadySent s transfer =
     (\<exists>item \<in> set (transfers s).
        TransferRecord.transferId item = Some (PlannedTransfer.transferId transfer))"

text \<open>
  The loop over the planned transfers in \<^verbatim>\<open>settleDueRounds\<close>. Its state is the local
  \<^verbatim>\<open>settlement\<close>, the ledger, and the list of planned transfers handed to
  \<^verbatim>\<open>sendAndConfirmTransaction\<close> so far. The flag in the result is \<^term>\<open>False\<close> when the
  loop was left by an exception.
\<close>

fun transferLoop ::
  "CustodyEnv \<Rightarrow> string \<Rightarrow> PlannedTransfer list \<Rightarrow>
   RoundSettlement \<times> Ledger \<times> PlannedTransfer list \<Rightarrow>
   bool \<times> RoundSettlement \<times> Ledger \<times> PlannedTransfer list" where
  "transferLoop env rid [] (s, L, submitted) = (True, s, L, submitted)"
| "transferLoop env rid (transfer # rest) (s, L, submitted) =
     (if alreadySent s transfer then transferLoop env rid rest (s, L, submitted)
      else
        (let submitted' = (if PlannedTransfer.lamports transfer \<le> 0 then submitted
                           else submitted @ [transfer])
         in case sendTransfer env \<lparr> Recipient.wallet = PlannedTransfer.wallet transfer,
                                     Recipient.lamports = PlannedTransfer.lamports transfer \<rparr> of
           None \<Rightarrow> (False, s, L, submitted')
         | Some sig \<Rightarrow>
            if sig = ''skipped'' then transferLoop env rid rest (s, L, submitted')
            else
              (case appendSettlementTransfer rid (receiptOf transfer sig) L of
                 Inl err \<Rightarrow> (False, s, L, submitted')
               | Inr L' \<Rightarrow>
                  transferLoop env rid rest
                    (s\<lparr>transfers := transfers s @ [receiptOf transfer sig]\<rparr>, L', submitted'))))"

definition allSent :: "RoundSettlement \<Rightarrow> bool" where
  "allSent refreshed =
     (\<forall>transfer \<in> set (case plannedTransfers refreshed of None \<Rightarrow> [] | Some ps \<Rightarrow> ps).
        alreadySent refreshed transfer)"

text \<open>
  One turn of the loop over the due rounds in \<^verbatim>\<open>settleDueRounds\<close>: take the lock, look the
  settlement up or create it, run the transfers, mark the round completed when every
  planned transfer has a receipt, release the lock. The result is the ledger and the
  transfers handed to the chain in this turn.
\<close>

definition settleOneRound ::
  "CustodyEnv \<Rightarrow> int \<Rightarrow> string \<Rightarrow> LedgerEntry list \<Rightarrow> Ledger \<Rightarrow> Ledger \<times> PlannedTransfer list" where
  "settleOneRound env now rid items L =
     (case tryAcquireRoundProcessingLock now rid defaultStaleAfterMs L of
        (False, L1) \<Rightarrow> (L1, [])
      | (True, L1) \<Rightarrow>
         (let existing = findSettlement rid (data L1);
              created = (case existing of
                           Some s \<Rightarrow> Some (s, L1)
                         | None \<Rightarrow>
                            (case createProcessingSettlement env now rid items of
                               None \<Rightarrow> None
                             | Some s \<Rightarrow> Some (s, addRoundSettlement s L1)))
          in if (case existing of Some s \<Rightarrow> state s = Some COMPLETED | None \<Rightarrow> False)
             then (releaseRoundProcessingLock rid L1, [])
             else
               (case created of
                  None \<Rightarrow> (releaseRoundProcessingLock rid L1, [])
                | Some (s, L2) \<Rightarrow>
                   (case transferLoop env rid
                           (case plannedTransfers s of None \<Rightarrow> [] | Some ps \<Rightarrow> ps)
                           (s, L2, []) of
                      (False, s', L3, submitted) \<Rightarrow> (releaseRoundProcessingLock rid L3, submitted)
                    | (True, s', L3, submitted) \<Rightarrow>
                       (let refreshed = (case findSettlement rid (data L3) of
                                           Some r \<Rightarrow> r | None \<Rightarrow> s');
                            L4 = (if allSent refreshed
                                  then markSettlementCompleted now rid L3 else L3)
                        in (releaseRoundProcessingLock rid L4, submitted))))))"

subsection \<open>Entry submission: \<^verbatim>\<open>app/api/entries/route.ts\<close>\<close>

text \<open>
  A numeric field of the parsed JSON body is a finite number or is missing. A missing
  string field is the empty string (both are falsy).
\<close>

datatype jsnum = Num rat | Missing

fun isFinite :: "jsnum \<Rightarrow> bool" where
  "isFinite (Num r) = True"
| "isFinite Missing = False"

fun isInteger :: "jsnum \<Rightarrow> bool" where
  "isInteger (Num r) = (of_int \<lfloor>r\<rfloor> = r)"
| "isInteger Missing = False"

fun numValue :: "jsnum \<Rightarrow> rat" where
  "numValue (Num r) = r"
| "numValue Missing = 0"

fun truthyNum :: "jsnum \<Rightarrow> bool" where
  "truthyNum (Num r) = (r \<noteq> 0)"
| "truthyNum Missing = False"

record EntryBody =
  roundId :: string
  market :: string
  feedId :: string
  roundStartMs :: jsnum
  roundEndMs :: jsnum
  wallet :: string
  direction :: string
  stakeUsd :: jsnum
  stakeLamports :: jsnum
  signature :: string
  joinedAtMs :: jsnum
  startPrice :: jsnum

text \<open>
  An instruction of the parsed transaction as far as the handler looks at it: a parsed
  instruction of some program with, for a system instruction, its type and the three
  fields of \<^verbatim>\<open>info\<close>, or, for a memo, the text; anything else is opaque.
\<close>

datatype Instruction =
    ParsedSystem string string string int
  | ParsedMemo string
  | OtherInstruction

record ParsedTx =
  metaErr :: bool
  blockTime :: "int option"
  instructions :: "Instruction list"

text \<open>
  The surroundings of one request: the production switch of the first lines, the clock,
  the address taken from the headers, the market table of the oracle library
  (\<^verbatim>\<open>MARKET_CONFIGS\<close>, keys with their feed ids; the handler is modelled for any such
  table), the check \<^verbatim>\<open>new PublicKey(wallet)\<close>, the escrow address, and the chain lookup
  \<^verbatim>\<open>getParsedTransaction\<close>.
\<close>

record JoinEnv =
  offchainDisabled :: bool
  dateNow :: int
  requestIp :: "string option"
  MARKET_CONFIGS :: "(string \<times> string) list"
  validPublicKey :: "string \<Rightarrow> bool"
  escrowAddress :: string
  getParsedTransaction :: "string \<Rightarrow> ParsedTx option"

datatype Response = ErrorResponse nat string | OkResponse bool

definition LOCK_SECONDS :: int where "LOCK_SECONDS = 60"
definition ENTRY_CYCLE_SECONDS :: int where "ENTRY_CYCLE_SECONDS = OPEN_ENTRY_SECONDS + LOCK_SECONDS"
definition SETTLEMENT_DURATION_SECONDS :: int where "SETTLEMENT_DURATION_SECONDS = 5 * 60"
definition RATE_LIMIT_WINDOW_SECONDS :: int where "RATE_LIMIT_WINDOW_SECONDS = 60"
definition MAX_ATTEMPTS_PER_WALLET_PER_WINDOW :: nat where "MAX_ATTEMPTS_PER_WALLET_PER_WINDOW = 12"
definition MAX_ATTEMPTS_PER_IP_PER_WINDOW :: nat where "MAX_ATTEMPTS_PER_IP_PER_WINDOW = 30"
definition MIN_STAKE_USD :: rat where "MIN_STAKE_USD = 1"
definition MAX_STAKE_USD :: rat where "MAX_STAKE_USD = 5000"
definition MAX_STAKE_LAMPORTS :: rat where "MAX_STAKE_LAMPORTS = 25 * 1000000000"
definition ALLOWED_DIRECTIONS :: "string list" where "ALLOWED_DIRECTIONS = [''UP'', ''DOWN'']"
definition ALLOWED_STAKES :: "rat list" where "ALLOWED_STAKES = [5, 10, 25, 50, 100, 250]"

definition directionOf :: "string \<Rightarrow> Direction" where
  "directionOf d = (if d = ''UP'' then UP else DOWN)"

definition invalidPayload :: "EntryBody \<Rightarrow> bool" where
  "invalidPayload body =
     (EntryBody.roundId body = [] \<or> EntryBody.market body = [] \<or> EntryBody.feedId body = [] \<or>
      EntryBody.wallet body = [] \<or> EntryBody.direction body = [] \<or>
      EntryBody.signature body = [] \<or>
      \<not> isFinite (EntryBody.roundStartMs body) \<or> \<not> isFinite (EntryBody.roundEndMs body) \<or>
      \<not> isInteger (EntryBody.roundStartMs body) \<or> \<not> isInteger (EntryBody.roundEndMs body) \<or>
      \<not> isFinite (EntryBody.stakeUsd body) \<or> \<not> isFinite (EntryBody.stakeLamports body) \<or>
      \<not> isInteger (EntryBody.stakeLamports body) \<or> \<not> isFinite (EntryBody.startPrice body))"

definition isTransferIx :: "EntryBody \<Rightarrow> string \<Rightarrow> Instruction \<Rightarrow> bool" where
  "isTransferIx body escrow instruction =
     (case instruction of
        ParsedSystem ty src dst amount \<Rightarrow>
          ty = ''transfer'' \<and> src = EntryBody.wallet body \<and> dst = escrow \<and>
          amount = \<lfloor>numValue (EntryBody.stakeLamports body)\<rfloor>
      | _ \<Rightarrow> False)"

definition expectedMemo :: "EntryBody \<Rightarrow> string" where
  "expectedMemo body =
     ''PANCHO|'' @ EntryBody.market body @ ''|'' @ EntryBody.roundId body @ ''|'' @
     EntryBody.direction body @ ''|'' @ showInt \<lfloor>numValue (EntryBody.stakeUsd body)\<rfloor>"

definition isMemoIx :: "EntryBody \<Rightarrow> Instruction \<Rightarrow> bool" where
  "isMemoIx body instruction =
     (case instruction of ParsedMemo txt \<Rightarrow> txt = expectedMemo body | _ \<Rightarrow> False)"

text \<open>
  The checks of \<^verbatim>\<open>POST\<close> that look at the request alone, in the order of the source, up to
  \<^verbatim>\<open>new PublicKey(body.wallet)\<close>: the answer of the first check that fails, if any.
\<close>

definition payloadError :: "JoinEnv \<Rightarrow> EntryBody \<Rightarrow> Response option" where
  "payloadError env body =
     (if offchainDisabled env then
        Some (ErrorResponse 503 ''Real-money off-chain custody mode is disabled in production. Enable on-chain program mode.'')
      else if invalidPayload body then Some (ErrorResponse 400 ''Invalid entry payload'')
      else if EntryBody.direction body \<notin> set ALLOWED_DIRECTIONS
        then Some (ErrorResponse 400 ''Invalid direction.'')
      else if EntryBody.market body \<notin> set (map fst (MARKET_CONFIGS env))
        then Some (ErrorResponse 400 ''Invalid market.'')
      else if numValue (EntryBody.stakeUsd body) \<notin> set ALLOWED_STAKES
        then Some (ErrorResponse 400 ''Invalid stake tier.'')
      else if numValue (EntryBody.stakeUsd body) < MIN_STAKE_USD \<or>
              numValue (EntryBody.stakeUsd body) > MAX_STAKE_USD \<or>
              numValue (EntryBody.stakeLamports body) \<le> 0 \<or>
              numValue (EntryBody.stakeLamports body) > MAX_STAKE_LAMPORTS
        then Some (ErrorResponse 400 ''Stake amount is outside allowed range.'')
      else
       (let startMs = \<lfloor>numValue (EntryBody.roundStartMs body)\<rfloor>;
            endMs = \<lfloor>numValue (EntryBody.roundEndMs body)\<rfloor>;
            expectedRoundId = EntryBody.market body @ ''-'' @ showInt (startMs div 1000) @ ''-5m'';
            expectedRoundEndMs = startMs + (OPEN_ENTRY_SECONDS + SETTLEMENT_DURATION_SECONDS) * 1000
        in if EntryBody.roundId body \<noteq> expectedRoundId
             then Some (ErrorResponse 400 ''Round ID does not match round start.'')
           else if startMs mod (ENTRY_CYCLE_SECONDS * 1000) \<noteq> 0
             then Some (ErrorResponse 400 ''Round start is not aligned to cycle boundary.'')
           else if endMs \<noteq> expectedRoundEndMs
             then Some (ErrorResponse 400 ''Round end does not match configured duration.'')
           else if \<not> validPublicKey env (EntryBody.wallet body)
             then Some (ErrorResponse 400 ''Invalid wallet address'')
           else None))"

text \<open>
  The handler \<^verbatim>\<open>POST\<close>, branch by branch in the order of the source; the audit log calls
  are left out. The result is the response and the ledger after the request. The clock is
  read for the attempt counters and for the default of \<^verbatim>\<open>joinedAtMs\<close>; the open window is
  compared with the block time of the transaction.
\<close>

definition POST :: "JoinEnv \<Rightarrow> EntryBody \<Rightarrow> Ledger \<Rightarrow> Response \<times> Ledger" where
  "POST env body L =
     (case payloadError env body of
        Some response \<Rightarrow> (response, L)
      | None \<Rightarrow>
       (let startMs = \<lfloor>numValue (EntryBody.roundStartMs body)\<rfloor>;
            endMs = \<lfloor>numValue (EntryBody.roundEndMs body)\<rfloor>;
            L0 = recordJoinAttempt (dateNow env) (EntryBody.wallet body) (requestIp env) L;
            counted = countRecentJoinAttempts (dateNow env) (EntryBody.wallet body)
                        (requestIp env) RATE_LIMIT_WINDOW_SECONDS L0;
            rate = fst counted;
            L1 = snd counted
        in if fst rate > MAX_ATTEMPTS_PER_WALLET_PER_WINDOW \<or>
              snd rate > MAX_ATTEMPTS_PER_IP_PER_WINDOW
             then (ErrorResponse 429 ''Too many requests. Slow down and try again.'', L1)
           else if hasLedgerEntrySignature (EntryBody.signature body) L1
             then (OkResponse False, L1)
           else if map_of (MARKET_CONFIGS env) (EntryBody.market body)
                     \<noteq> Some (EntryBody.feedId body)
             then (ErrorResponse 400 ''Market feed mismatch'', L1)
           else
            (case getParsedTransaction env (EntryBody.signature body) of
               None \<Rightarrow> (ErrorResponse 400 ''Transaction not confirmed onchain'', L1)
             | Some parsedTx \<Rightarrow>
                if metaErr parsedTx
                  then (ErrorResponse 400 ''Transaction not confirmed onchain'', L1)
                else
                 (case blockTime parsedTx of
                    None \<Rightarrow>
                      (ErrorResponse 400
                         ''Transaction block time unavailable for join-window validation.'', L1)
                  | Some bt \<Rightarrow>
                     (let txMs = bt * 1000;
                          lockMs = startMs + OPEN_ENTRY_SECONDS * 1000
                      in if txMs < startMs \<or> txMs \<ge> lockMs
                           then (ErrorResponse 400
                                   ''Transaction was not submitted during open entry window.'', L1)
                         else if \<not> (\<exists>ix \<in> set (instructions parsedTx).
                                      isTransferIx body (escrowAddress env) ix)
                           then (ErrorResponse 400
                                   ''Onchain transfer does not match entry payload'', L1)
                         else if \<not> (\<exists>ix \<in> set (instructions parsedTx). isMemoIx body ix)
                           then (ErrorResponse 400
                                   ''Onchain memo does not match entry payload'', L1)
                         else
                          (let result = addLedgerEntry
                                 \<lparr> LedgerEntry.roundId = EntryBody.roundId body,
                                   LedgerEntry.market = Some (EntryBody.market body),
                                   LedgerEntry.feedId = Some (EntryBody.feedId body),
                                   LedgerEntry.roundStartMs = startMs,
                                   LedgerEntry.roundEndMs = endMs,
                                   LedgerEntry.wallet = EntryBody.wallet body,
                                   LedgerEntry.direction = directionOf (EntryBody.direction body),
                                   LedgerEntry.stakeUsd = \<lfloor>numValue (EntryBody.stakeUsd body)\<rfloor>,
                                   stakeLamports = \<lfloor>numValue (EntryBody.stakeLamports body)\<rfloor>,
                                   LedgerEntry.signature = EntryBody.signature body,
                                   LedgerEntry.joinedAtMs =
                                     (if truthyNum (EntryBody.joinedAtMs body)
                                      then numValue (EntryBody.joinedAtMs body)
                                      else of_int (dateNow env)),
                                   LedgerEntry.startPrice = 0,
                                   clientIp = requestIp env \<rparr> L1
                           in (OkResponse (fst result), snd result)))))))"

subsection \<open>The decision rule as the specification words it\<close>

text \<open>
  The rule of the specification over the two side totals and the two prices. It is
  compared below with what \<^verbatim>\<open>settleRound\<close> and \<^verbatim>\<open>createProcessingSettlement\<close> decide.
\<close>

definition spec_decision :: "int \<Rightarrow> int \<Rightarrow> rat \<Rightarrow> rat \<Rightarrow> Mode \<times> Direction option" where
  "spec_decision up_total down_total start_price end_price =
     (if up_total = 0 \<or> down_total = 0 then (REFUND, None)
      else if end_price > start_price then (WIN, Some UP)
      else if end_price < start_price then (WIN, Some DOWN)
      else (REFUND, None))"

subsection \<open>The receipt invariant as the specification words it\<close>

text \<open>
  At most one receipt per round and transfer id: no two settlement records share a round
  id, and within a record no (non-empty) transfer id occurs on two receipts.
\<close>

definition receiptsUnique :: "Ledger \<Rightarrow> bool" where
  "receiptsUnique L =
     (distinct (map RoundSettlement.roundId (settlements (data L))) \<and>
      (\<forall>s \<in> set (settlements (data L)).
         distinct (filter truthy (map TransferRecord.transferId (transfers s)))))"

text \<open>A ledger with nothing in it, on the pool or on the file.\<close>

definition emptyLedger :: "bool \<Rightarrow> Ledger" where
  "emptyLedger withPool =
     \<lparr> pool = withPool, data = \<lparr> entries = [], settlements = [] \<rparr>,
       locks = Map.empty, join_attempts = [],
       inMemoryWalletJoinAttempts = (\<lambda>w. []), inMemoryIpJoinAttempts = (\<lambda>addr. []) \<rparr>"

subsection \<open>Concrete rounds\<close>

text \<open>
  The round \<^verbatim>\<open>SOL-0-5m\<close>: it starts at 0 ms, locks at 60 s and ends at 360 s. The oracle
  of the examples knows the price 100 at the lock second and 101 at the end second, and
  nothing else.
\<close>

definition exampleOracle :: Oracle where
  "exampleOracle =
     \<lparr> fetchOracleSnapshotAtTimestamp =
         (\<lambda>mkt ts. if ts = 60 then Some 100 else if ts = 360 then Some 101 else None),
       fetchOracleSnapshot = (\<lambda>mkt. None) \<rparr>"

definition simEntry :: "string \<Rightarrow> Direction \<Rightarrow> int \<Rightarrow> int \<Rightarrow> SimEntry" where
  "simEntry name side bucks joined =
     \<lparr> entryId = name, SimEntry.roundId = ''SOL-0-5m'', SimEntry.market = ''SOL'',
       SimEntry.feedId = ''feed-sol'', SimEntry.roundStartMs = 0, SimEntry.roundEndMs = 360000,
       SimEntry.wallet = name, SimEntry.direction = side, stakeBucks = bucks,
       SimEntry.joinedAtMs = joined \<rparr>"

definition custodyEntry :: "string \<Rightarrow> Direction \<Rightarrow> int \<Rightarrow> LedgerEntry" where
  "custodyEntry name side amount =
     \<lparr> LedgerEntry.roundId = ''SOL-0-5m'', LedgerEntry.market = Some ''SOL'',
       LedgerEntry.feedId = Some ''feed-sol'', LedgerEntry.roundStartMs = 0,
       LedgerEntry.roundEndMs = 360000, LedgerEntry.wallet = name,
       LedgerEntry.direction = side, LedgerEntry.stakeUsd = 5,
       LedgerEntry.stakeLamports = amount, LedgerEntry.signature = ''sig-'' @ name,
       LedgerEntry.joinedAtMs = 1000, LedgerEntry.startPrice = 0, clientIp = None \<rparr>"

definition exampleEnv :: CustodyEnv where
  "exampleEnv =
     \<lparr> priceOracle = exampleOracle,
       resolveMarketByFeedId = (\<lambda>feed. ''SOL''),
       treasuryWallet = ''treasury'',
       signerWallet = ''signer'',
       sendAndConfirmTransaction = (\<lambda>recipient. Some (''tx-'' @ Recipient.wallet recipient)) \<rparr>"

text \<open>A sim store on the file database with the given rows and no settlement yet.\<close>

definition exampleStore :: "SimEntry list \<Rightarrow> SimStore" where
  "exampleStore rows =
     \<lparr> backend = Sqlite, sim_entries = rows, sim_round_settlements = Map.empty \<rparr>"

text \<open>
  An oracle that has the price at the lock second only and answers the live query with
  101, and one that answers nothing.
\<close>

definition liveOracle :: Oracle where
  "liveOracle =
     \<lparr> fetchOracleSnapshotAtTimestamp = (\<lambda>mkt ts. if ts = 60 then Some 100 else None),
       fetchOracleSnapshot = (\<lambda>mkt. Some 101) \<rparr>"

definition deadOracle :: Oracle where
  "deadOracle =
     \<lparr> fetchOracleSnapshotAtTimestamp = (\<lambda>mkt ts. None), fetchOracleSnapshot = (\<lambda>mkt. None) \<rparr>"

text \<open>
  A settlement of the example round caught in the middle: of the three planned transfers
  the fee and the first payout have their receipts, the second payout has none.
\<close>

definition plannedExample :: "PlannedTransfer list" where
  "plannedExample =
     [\<lparr> PlannedTransfer.transferId = ''fee-0'', PlannedTransfer.wallet = ''treasury'',
        PlannedTransfer.lamports = 6, kind = fee \<rparr>,
      \<lparr> PlannedTransfer.transferId = ''payout-0'', PlannedTransfer.wallet = ''alice'',
        PlannedTransfer.lamports = 66, kind = payout \<rparr>,
      \<lparr> PlannedTransfer.transferId = ''payout-1'', PlannedTransfer.wallet = ''bob'',
        PlannedTransfer.lamports = 33, kind = payout \<rparr>]"

definition resumedSettlement :: RoundSettlement where
  "resumedSettlement =
     \<lparr> RoundSettlement.roundId = ''SOL-0-5m'', state = Some PROCESSING,
       RoundSettlement.settledAtMs = 400000, RoundSettlement.mode = WIN,
       RoundSettlement.winnerSide = Some UP, RoundSettlement.startPrice = 100,
       RoundSettlement.endPrice = 101, feeLamports = 6,
       plannedTransfers = Some plannedExample,
       transfers =
         [\<lparr> TransferRecord.transferId = Some ''fee-0'', TransferRecord.wallet = ''treasury'',
            TransferRecord.lamports = 6, TransferRecord.signature = ''tx-treasury'' \<rparr>,
          \<lparr> TransferRecord.transferId = Some ''payout-0'', TransferRecord.wallet = ''alice'',
            TransferRecord.lamports = 66, TransferRecord.signature = ''tx-alice'' \<rparr>] \<rparr>"

definition resumedLedger :: Ledger where
  "resumedLedger =
     \<lparr> pool = False, data = \<lparr> entries = [], settlements = [resumedSettlement] \<rparr>,
       locks = Map.empty, join_attempts = [],
       inMemoryWalletJoinAttempts = (\<lambda>w. []), inMemoryIpJoinAttempts = (\<lambda>addr. []) \<rparr>"

text \<open>
  A join of the example round: alice stakes 5 USD (1000 lamports) on UP and sends
  \<^verbatim>\<open>joinedAtMs = 5\<close>. The server clock stands at 31000 ms; the transfer to the escrow
  wallet with the matching memo is found on chain at the given block time (in seconds).
\<close>

definition exampleBody :: EntryBody where
  "exampleBody =
     \<lparr> EntryBody.roundId = ''SOL-0-5m'', EntryBody.market = ''SOL'',
       EntryBody.feedId = ''feed-sol'', EntryBody.roundStartMs = Num 0,
       EntryBody.roundEndMs = Num 360000, EntryBody.wallet = ''alice'',
       EntryBody.direction = ''UP'', EntryBody.stakeUsd = Num 5,
       EntryBody.stakeLamports = Num 1000, EntryBody.signature = ''sig-alice'',
       EntryBody.joinedAtMs = Num 5, EntryBody.startPrice = Num 100 \<rparr>"

definition exampleTx :: "int \<Rightarrow> ParsedTx" where
  "exampleTx blockSeconds =
     \<lparr> metaErr = False, blockTime = Some blockSeconds,
       instructions = [ParsedSystem ''transfer'' ''alice'' ''escrow'' 1000,
                       ParsedMemo ''PANCHO|SOL|SOL-0-5m|UP|5''] \<rparr>"

definition exampleJoinEnv :: "int \<Rightarrow> JoinEnv" where
  "exampleJoinEnv blockSeconds =
     \<lparr> offchainDisabled = False, dateNow = 31000, requestIp = Some ''10.0.0.1'',
       MARKET_CONFIGS = [(''SOL'', ''feed-sol'')], validPublicKey = (\<lambda>w. True),
       escrowAddress = ''escrow'',
       getParsedTransaction = (\<lambda>sig. Some (exampleTx blockSeconds)) \<rparr>"

text \<open>
  The same join arriving late: the transfer is on chain at second 30, inside the open
  window, and the request reaches the server at 999999999 ms, long after the lock at
  60000 ms.
\<close>

definition lateJoinEnv :: JoinEnv where
  "lateJoinEnv = (exampleJoinEnv 30)\<lparr> dateNow := 999999999 \<rparr>"

section \<open>Properties\<close>

subsection \<open>Arithmetic of the floor shares\<close>

lemma div_add_le_int:
  assumes t: "0 < (t::int)" shows "x div t + y div t \<le> (x + y) div t"
proof -
  have "x mod t \<ge> 0" "y mod t \<ge> 0" using t by simp_all
  moreover have "t * (x div t) + x mod t = x" "t * (y div t) + y mod t = y" by simp_all
  ultimately have "t * (x div t) \<le> x" "t * (y div t) \<le> y" by linarith+
  then have "t * (x div t + y div t) \<le> x + y" by (simp add: distrib_left)
  then have "(t * (x div t + y div t)) div t \<le> (x + y) div t" using t by (rule zdiv_mono1)
  then show ?thesis using t by simp
qed

lemma sum_floor_le:
  assumes t: "0 < (t::int)"
  shows "sum_list (map (\<lambda>w. (d * w) div t) ws) \<le> (d * sum_list ws) div t"
proof (induction ws)
  case Nil show ?case by simp
next
  case (Cons w ws)
  have "(d * w) div t + sum_list (map (\<lambda>w. (d * w) div t) ws)
        \<le> (d * w) div t + (d * sum_list ws) div t" using Cons.IH by simp
  also have "\<dots> \<le> (d * w + d * sum_list ws) div t" using t by (rule div_add_le_int)
  finally show ?case by (simp add: distrib_left)
qed

lemma sum_list_pos_int:
  assumes "ws \<noteq> []" "\<forall>w \<in> set ws. 0 < (w::int)"
  shows "0 < sum_list ws"
proof (cases ws)
  case Nil then show ?thesis using assms by simp
next
  case (Cons a list)
  have "0 \<le> sum_list list"
    by (rule sum_list_nonneg) (use assms(2) Cons in force)
  moreover have "0 < a" using assms(2) Cons by simp
  ultimately show ?thesis using Cons by simp
qed

lemma map_set_fresh: "k \<notin> fst ` set m \<Longrightarrow> map_set k v m = m @ [(k, v)]"
  by (induction m) auto

lemma foldl_map_set_distinct:
  "distinct (map fst xs) \<Longrightarrow> fst ` set m \<inter> fst ` set xs = {} \<Longrightarrow>
   foldl (\<lambda>allocations item. map_set (fst item) (snd item) allocations) m xs = m @ xs"
proof (induction xs arbitrary: m)
  case Nil then show ?case by simp
next
  case (Cons x xs)
  have "map_set (fst x) (snd x) m = m @ [x]" using Cons.prems by (simp add: map_set_fresh)
  moreover have "fst ` set (m @ [x]) \<inter> fst ` set xs = {}" using Cons.prems by auto
  ultimately show ?case using Cons.IH[of "m @ [x]"] Cons.prems by simp
qed

lemma map_set_mem: "x \<in> set (map_set k v m) \<Longrightarrow> x = (k, v) \<or> x \<in> set m"
  by (induction m) (auto split: if_splits)

lemma foldl_map_set_mem:
  "x \<in> set (foldl (\<lambda>allocations item. map_set (fst item) (snd item) allocations) m xs)
   \<Longrightarrow> x \<in> set m \<or> x \<in> set xs"
proof (induction xs arbitrary: m)
  case Nil then show ?case by simp
next
  case (Cons y ys)
  from Cons.IH[of "map_set (fst y) (snd y) m"] Cons.prems
  have "x \<in> set (map_set (fst y) (snd y) m) \<or> x \<in> set ys" by simp
  then show ?case using map_set_mem[of x "fst y" "snd y" m] by auto
qed

lemma sum_prepared_le:
  "0 < t \<Longrightarrow> sum_list (map snd (prepared rs d t)) \<le> (d * sum_list (map snd rs)) div t"
  using sum_floor_le[of t d "map snd rs"] by (simp add: prepared_def comp_def)

lemma sum_addRemainder:
  "xs \<noteq> [] \<Longrightarrow> 0 \<le> r \<Longrightarrow> sum_list (map snd (addRemainder r xs)) = sum_list (map snd xs) + r"
  by (cases xs) auto

lemma keys_addRemainder: "map fst (addRemainder r xs) = map fst xs"
  by (cases xs) auto

lemma addRemainder_nonneg:
  "\<forall>p \<in> set xs. 0 \<le> snd p \<Longrightarrow> \<forall>p \<in> set (addRemainder r xs). 0 \<le> snd p"
  by (cases xs) (auto split: if_splits)

lemma proRataCents_distinct:
  assumes "distinct (map fst rs)" "0 < d" "0 < t" "rs \<noteq> []"
  shows "proRataCents rs d t = addRemainder (d - sum_list (map snd (prepared rs d t))) (prepared rs d t)"
proof -
  let ?p = "addRemainder (d - sum_list (map snd (prepared rs d t))) (prepared rs d t)"
  have "map fst ?p = map fst rs" by (simp add: keys_addRemainder prepared_def comp_def)
  then have "distinct (map fst ?p)" using assms by simp
  then have "foldl (\<lambda>allocations item. map_set (fst item) (snd item) allocations) [] ?p = ?p"
    using foldl_map_set_distinct[of ?p "[]"] by simp
  then show ?thesis using assms by (simp add: proRataCents_def Let_def)
qed

lemma proRataCents_sum:
  assumes "distinct (map fst rs)" "0 \<le> d" "rs \<noteq> []" "\<forall>r \<in> set rs. 0 < snd r"
  shows "sum_list (map snd (proRataCents rs d (sum_list (map snd rs)))) = d"
proof (cases "d = 0")
  case True then show ?thesis by (simp add: proRataCents_def)
next
  case False
  let ?t = "sum_list (map snd rs)"
  have tpos: "0 < ?t" using assms(3,4) by (intro sum_list_pos_int) auto
  have d: "0 < d" using False assms by simp
  have "sum_list (map snd (prepared rs d ?t)) \<le> (d * ?t) div ?t" using tpos by (rule sum_prepared_le)
  then have le: "sum_list (map snd (prepared rs d ?t)) \<le> d" using tpos by simp
  have ne: "prepared rs d ?t \<noteq> []" using assms by (simp add: prepared_def)
  show ?thesis using proRataCents_distinct[OF assms(1) d tpos assms(3)] sum_addRemainder[OF ne] le by simp
qed

lemma prepared_nonneg:
  assumes "0 \<le> d" "0 < t" "\<forall>r \<in> set rs. 0 \<le> snd r"
  shows "\<forall>p \<in> set (prepared rs d t). 0 \<le> snd p"
  using assms by (auto simp: prepared_def pos_imp_zdiv_nonneg_iff)

lemma proRataCents_nonneg:
  assumes "\<forall>r \<in> set rs. 0 \<le> snd r"
  shows "\<forall>p \<in> set (proRataCents rs d t). 0 \<le> snd p"
proof (cases "d \<le> 0 \<or> t \<le> 0 \<or> rs = []")
  case True then show ?thesis by (auto simp: proRataCents_def)
next
  case False
  have fl: "\<forall>p \<in> set (prepared rs d t). 0 \<le> snd p"
    using assms False by (intro prepared_nonneg) auto
  show ?thesis
  proof
    fix p assume "p \<in> set (proRataCents rs d t)"
    then have "p \<in> set (addRemainder (d - sum_list (map snd (prepared rs d t))) (prepared rs d t))"
      using False foldl_map_set_mem[of p "[]"] by (auto simp: proRataCents_def Let_def)
    then show "0 \<le> snd p" using addRemainder_nonneg[OF fl] by blast
  qed
qed

lemma sum_addRemainderFirst:
  "xs \<noteq> [] \<Longrightarrow> 0 \<le> r \<Longrightarrow>
   sum_list (map Recipient.lamports (addRemainderFirst r xs)) = sum_list (map Recipient.lamports xs) + r"
  by (cases xs) auto

lemma addRemainderFirst_nonneg:
  "\<forall>p \<in> set xs. 0 \<le> Recipient.lamports p \<Longrightarrow>
   \<forall>p \<in> set (addRemainderFirst r xs). 0 \<le> Recipient.lamports p"
  by (cases xs) (auto split: if_splits)

subsection \<open>Rounding to a double\<close>

text \<open>
  The rounding error is at most half an \<open>ulp\<close>, hence at most \<open>\<bar>x\<bar> / 2^53\<close>; integers below
  \<open>2^53\<close> are not changed; and the floor of the rounded quotient of an integer below \<open>2^53\<close>
  by a positive integer is the integer quotient.
\<close>

lemma roundHalfEven_error: "\<bar>of_int (roundHalfEven y) - y\<bar> \<le> 1 / 2"
proof -
  have "of_int \<lfloor>y\<rfloor> \<le> y" "y < of_int \<lfloor>y\<rfloor> + 1" by linarith+
  then show ?thesis by (auto simp: roundHalfEven_def Let_def)
qed

lemma roundHalfEven_of_int: "roundHalfEven (of_int n) = n"
  by (simp add: roundHalfEven_def)

lemma roundHalfEven_ge_floor: "\<lfloor>y\<rfloor> \<le> roundHalfEven y"
  by (simp add: roundHalfEven_def Let_def)

lemma binade_bounds:
  assumes "0 < x"
  shows "2 powi binade x \<le> x" and "x < 2 powi (binade x + 1)"
proof -
  show "2 powi binade x \<le> x"
  proof (cases "1 \<le> x")
    case True
    let ?n = "\<lfloor>x\<rfloor>"
    have n: "0 < ?n" using True by linarith
    have b: "1 \<le> bitlen ?n" using n bitlen_eq_zero_iff[of ?n] bitlen_nonneg[of ?n] by linarith
    have "(2::int) ^ nat (bitlen ?n - 1) \<le> ?n" using bitlen_bounds[OF n] by simp
    then have "(of_int ((2::int) ^ nat (bitlen ?n - 1)) :: rat) \<le> of_int ?n" by (simp only: of_int_le_iff)
    then have "(2::rat) ^ nat (bitlen ?n - 1) \<le> of_int ?n" by simp
    also have "\<dots> \<le> x" by linarith
    finally show ?thesis using True b by (simp add: binade_def power_int_nonneg_exp)
  next
    case False
    let ?m = "\<lceil>1 / x\<rceil>"
    have y: "1 < 1 / x" using False assms by simp
    then have m: "0 < ?m - 1" by linarith
    let ?k = "bitlen (?m - 1)"
    have k: "1 \<le> ?k" using m bitlen_eq_zero_iff[of "?m - 1"] bitlen_nonneg[of "?m - 1"] by linarith
    have "?m - 1 < 2 ^ nat ?k" using bitlen_bounds[OF m] by simp
    then have "?m \<le> 2 ^ nat ?k" by simp
    then have "(of_int ?m :: rat) \<le> of_int (2 ^ nat ?k)" by (simp only: of_int_le_iff)
    then have "(of_int ?m :: rat) \<le> 2 ^ nat ?k" by simp
    moreover have "1 / x \<le> of_int ?m" by linarith
    ultimately have "1 / x \<le> 2 ^ nat ?k" by linarith
    then have "1 \<le> 2 ^ nat ?k * x" using assms by (simp add: field_simps)
    then have "1 / 2 ^ nat ?k \<le> x" by (simp add: field_simps)
    moreover have "(2::rat) powi (- ?k) = 1 / 2 ^ nat ?k"
      using k by (simp add: power_int_minus_divide power_int_nonneg_exp)
    ultimately show ?thesis using False by (simp add: binade_def)
  qed
  show "x < 2 powi (binade x + 1)"
  proof (cases "1 \<le> x")
    case True
    let ?n = "\<lfloor>x\<rfloor>"
    have n: "0 < ?n" using True by linarith
    have b: "1 \<le> bitlen ?n" using n bitlen_eq_zero_iff[of ?n] bitlen_nonneg[of ?n] by linarith
    have "?n < 2 ^ nat (bitlen ?n)" using bitlen_bounds[OF n] by simp
    then have "?n + 1 \<le> 2 ^ nat (bitlen ?n)" by simp
    then have "(of_int (?n + 1) :: rat) \<le> of_int (2 ^ nat (bitlen ?n))" by (simp only: of_int_le_iff)
    then have "(of_int ?n :: rat) + 1 \<le> 2 ^ nat (bitlen ?n)" by simp
    moreover have "x < of_int ?n + 1" by linarith
    ultimately have "x < 2 ^ nat (bitlen ?n)" by linarith
    then show ?thesis using True b by (simp add: binade_def power_int_nonneg_exp)
  next
    case False
    let ?m = "\<lceil>1 / x\<rceil>"
    have y: "1 < 1 / x" using False assms by simp
    then have m: "0 < ?m - 1" by linarith
    let ?k = "bitlen (?m - 1)"
    have k: "1 \<le> ?k" using m bitlen_eq_zero_iff[of "?m - 1"] bitlen_nonneg[of "?m - 1"] by linarith
    have "(2::int) ^ nat (?k - 1) \<le> ?m - 1" using bitlen_bounds[OF m] by simp
    then have "(of_int ((2::int) ^ nat (?k - 1)) :: rat) \<le> of_int (?m - 1)" by (simp only: of_int_le_iff)
    then have "(2::rat) ^ nat (?k - 1) \<le> of_int ?m - 1" by simp
    moreover have "of_int ?m - 1 < 1 / x" by linarith
    ultimately have "(2::rat) ^ nat (?k - 1) < 1 / x" by linarith
    then have "2 ^ nat (?k - 1) * x < 1" using assms by (simp add: field_simps)
    then have "x < 1 / 2 ^ nat (?k - 1)" by (simp add: field_simps)
    moreover have "(2::rat) powi (- ?k + 1) = 1 / 2 ^ nat (?k - 1)"
    proof -
      have "(2::rat) powi (- ?k + 1) = 2 powi (- (?k - 1))" by simp
      also have "\<dots> = 1 / 2 powi (?k - 1)" by (rule power_int_minus_divide)
      also have "\<dots> = 1 / 2 ^ nat (?k - 1)" using k by (simp add: power_int_nonneg_exp)
      finally show ?thesis .
    qed
    ultimately show ?thesis using False by (simp add: binade_def)
  qed
qed

lemma ulp_pos: "0 < ulp x"
  by (simp add: ulp_def)

lemma ulp_le: assumes "x \<noteq> 0" shows "ulp x \<le> \<bar>x\<bar> / 2 ^ 52"
proof -
  have "0 < \<bar>x\<bar>" using assms by simp
  then have "2 powi binade \<bar>x\<bar> \<le> \<bar>x\<bar>" by (rule binade_bounds)
  moreover have "ulp x = 2 powi binade \<bar>x\<bar> / 2 ^ 52"
    by (simp add: ulp_def power_int_diff)
  ultimately show ?thesis by (simp add: divide_right_mono)
qed

lemma roundDouble_error: "\<bar>roundDouble x - x\<bar> \<le> \<bar>x\<bar> / 2 ^ 53"
proof (cases "x = 0")
  case True then show ?thesis by (simp add: roundDouble_def)
next
  case False
  let ?u = "ulp x"
  have u: "0 < ?u" by (rule ulp_pos)
  have "\<bar>of_int (roundHalfEven (x / ?u)) - x / ?u\<bar> \<le> 1 / 2" by (rule roundHalfEven_error)
  then have "\<bar>of_int (roundHalfEven (x / ?u)) - x / ?u\<bar> * ?u \<le> 1 / 2 * ?u"
    using u by (simp add: mult_right_mono)
  moreover have "\<bar>of_int (roundHalfEven (x / ?u)) - x / ?u\<bar> * ?u
                 = \<bar>of_int (roundHalfEven (x / ?u)) * ?u - x\<bar>"
  proof -
    have "\<bar>of_int (roundHalfEven (x / ?u)) - x / ?u\<bar> * ?u
          = \<bar>(of_int (roundHalfEven (x / ?u)) - x / ?u) * ?u\<bar>"
      using u by (simp add: abs_mult)
    also have "(of_int (roundHalfEven (x / ?u)) - x / ?u) * ?u
               = of_int (roundHalfEven (x / ?u)) * ?u - x"
      using u by (simp add: field_simps)
    finally show ?thesis .
  qed
  ultimately have "\<bar>roundDouble x - x\<bar> \<le> ?u / 2" using False by (simp add: roundDouble_def)
  also have "\<dots> \<le> (\<bar>x\<bar> / 2 ^ 52) / 2" using ulp_le[OF False] by simp
  also have "\<dots> = \<bar>x\<bar> / 2 ^ 53" by simp
  finally show ?thesis .
qed

lemma roundDouble_nonneg: assumes "0 \<le> x" shows "0 \<le> roundDouble x"
proof (cases "x = 0")
  case True then show ?thesis by (simp add: roundDouble_def)
next
  case False
  have u: "0 < ulp x" by (rule ulp_pos)
  then have "0 \<le> x / ulp x" using assms by simp
  then have "0 \<le> \<lfloor>x / ulp x\<rfloor>" by simp
  then have "0 \<le> roundHalfEven (x / ulp x)" using roundHalfEven_ge_floor[of "x / ulp x"] by linarith
  then show ?thesis using u False by (simp add: roundDouble_def)
qed

lemma roundDouble_upper: assumes "0 \<le> x" shows "roundDouble x \<le> x * (1 + 1 / 2 ^ 53)"
proof -
  have "roundDouble x - x \<le> \<bar>x\<bar> / 2 ^ 53" using roundDouble_error[of x] by linarith
  then show ?thesis using assms by (simp add: field_simps)
qed

lemma binade_of_int_le:
  assumes "0 < n" "n < 2 ^ 53"
  shows "0 \<le> binade (of_int n)" "binade (of_int n) \<le> 52"
proof -
  have one: "(1::rat) \<le> of_int n" using assms(1) by simp
  have b: "1 \<le> bitlen n" using assms(1) bitlen_eq_zero_iff[of n] bitlen_nonneg[of n] by linarith
  have "bitlen n \<le> 53" using assms(2) by (simp add: bitlen_le_iff_power)
  then show "0 \<le> binade (of_int n)" "binade (of_int n) \<le> 52"
    using one b by (simp_all add: binade_def)
qed

lemma roundDouble_of_int:
  assumes "\<bar>n\<bar> < 2 ^ 53"
  shows "roundDouble (of_int n) = of_int n"
proof (cases "n = 0")
  case True then show ?thesis by (simp add: roundDouble_def)
next
  case False
  let ?e = "binade \<bar>of_int n\<bar>"
  have "?e = binade (of_int \<bar>n\<bar>)" by simp
  moreover have "0 < \<bar>n\<bar>" using False by simp
  ultimately have e: "0 \<le> ?e" "?e \<le> 52" using binade_of_int_le[of "\<bar>n\<bar>"] assms by simp_all
  let ?k = "nat (52 - ?e)"
  have u: "ulp (of_int n) = 1 / 2 ^ ?k"
  proof -
    have "ulp (of_int n) = 2 powi (- (52 - ?e))" by (simp add: ulp_def)
    also have "\<dots> = 1 / 2 powi (52 - ?e)" by (rule power_int_minus_divide)
    also have "\<dots> = 1 / 2 ^ ?k" using e by (simp add: power_int_nonneg_exp)
    finally show ?thesis .
  qed
  have "of_int n / ulp (of_int n) = (of_int (n * 2 ^ ?k) :: rat)" by (simp add: u)
  then have "roundHalfEven (of_int n / ulp (of_int n)) = n * 2 ^ ?k"
    by (simp only: roundHalfEven_of_int)
  then show ?thesis using False by (simp add: roundDouble_def u)
qed

lemma roundDouble_ge_floor:
  assumes "1 \<le> x" "x < 2 ^ 53"
  shows "of_int \<lfloor>x\<rfloor> \<le> roundDouble x"
proof -
  let ?n = "\<lfloor>x\<rfloor>"
  have n: "0 < ?n" using assms(1) by linarith
  have "?n < 2 ^ 53"
  proof -
    have "of_int ?n \<le> x" by linarith
    then have "(of_int ?n :: rat) < of_int (2 ^ 53)" using assms(2) by simp
    then show ?thesis by (simp only: of_int_less_iff)
  qed
  then have "bitlen ?n \<le> 53" by (simp add: bitlen_le_iff_power)
  moreover have "1 \<le> bitlen ?n" using n bitlen_eq_zero_iff[of ?n] bitlen_nonneg[of ?n] by linarith
  ultimately have e: "0 \<le> binade x" "binade x \<le> 52" using assms(1) by (simp_all add: binade_def)
  let ?k = "nat (52 - binade x)"
  have x0: "x \<noteq> 0" "\<bar>x\<bar> = x" using assms(1) by simp_all
  have u: "ulp x = 1 / 2 ^ ?k"
  proof -
    have "ulp x = 2 powi (- (52 - binade x))" by (simp add: ulp_def x0)
    also have "\<dots> = 1 / 2 powi (52 - binade x)" by (rule power_int_minus_divide)
    also have "\<dots> = 1 / 2 ^ ?k" using e by (simp add: power_int_nonneg_exp)
    finally show ?thesis .
  qed
  have "(of_int (?n * 2 ^ ?k) :: rat) = of_int ?n * 2 ^ ?k" by simp
  also have "\<dots> \<le> x * 2 ^ ?k" by (simp add: mult_right_mono)
  finally have "?n * 2 ^ ?k \<le> \<lfloor>x * 2 ^ ?k\<rfloor>" by (simp only: le_floor_iff)
  also have "\<dots> \<le> roundHalfEven (x * 2 ^ ?k)" by (rule roundHalfEven_ge_floor)
  finally have "(of_int (?n * 2 ^ ?k) :: rat) \<le> of_int (roundHalfEven (x * 2 ^ ?k))"
    by (simp only: of_int_le_iff)
  then have "of_int ?n * 2 ^ ?k \<le> (of_int (roundHalfEven (x * 2 ^ ?k)) :: rat)" by simp
  then have "of_int ?n \<le> (of_int (roundHalfEven (x * 2 ^ ?k)) :: rat) / 2 ^ ?k"
    by (simp add: field_simps)
  then show ?thesis using x0 by (simp add: roundDouble_def u)
qed

lemma mulDivFloor_nonneg:
  assumes "0 \<le> a" "0 \<le> b" "0 < c"
  shows "0 \<le> mulDivFloor a b c"
proof -
  have "(0::rat) \<le> of_int a * of_int b" using assms by simp
  then have "0 \<le> roundDouble (of_int a * of_int b)" by (rule roundDouble_nonneg)
  then have "0 \<le> roundDouble (of_int a * of_int b) / of_int c" using assms(3) by simp
  then have "0 \<le> roundDouble (roundDouble (of_int a * of_int b) / of_int c)"
    by (rule roundDouble_nonneg)
  then show ?thesis by (simp add: mulDivFloor_def)
qed

lemma mulDivFloor_upper:
  assumes "0 \<le> a" "0 \<le> b" "0 < c"
  shows "(of_int (mulDivFloor a b c) :: rat)
         \<le> of_int a * of_int b / of_int c * (1 + 1 / 2 ^ 53)\<^sup>2"
proof -
  let ?K = "1 + 1 / (2::rat) ^ 53"
  let ?p = "roundDouble (of_int a * of_int b)"
  have ab: "(0::rat) \<le> of_int a * of_int b" using assms by simp
  have p0: "0 \<le> ?p" using ab by (rule roundDouble_nonneg)
  have p: "?p \<le> of_int a * of_int b * ?K" using ab by (rule roundDouble_upper)
  have c: "(0::rat) < of_int c" using assms(3) by simp
  have q0: "0 \<le> ?p / of_int c" using p0 c by simp
  have "of_int (mulDivFloor a b c) \<le> roundDouble (?p / of_int c)"
    by (simp add: mulDivFloor_def)
  also have "\<dots> \<le> ?p / of_int c * ?K" using q0 by (rule roundDouble_upper)
  also have "\<dots> \<le> (of_int a * of_int b * ?K) / of_int c * ?K"
    using p c by (intro mult_right_mono divide_right_mono) simp_all
  also have "\<dots> = of_int a * of_int b / of_int c * ?K\<^sup>2" by (simp add: power2_eq_square)
  finally show ?thesis .
qed

lemma divide_le_self_rat: "0 \<le> (p::rat) \<Longrightarrow> 1 \<le> c \<Longrightarrow> p / c \<le> p"
  using divide_left_mono[of 1 c p] by simp

lemma small_quotient_error:
  fixes p c :: rat
  assumes "p < 2 ^ 53" "0 < c"
  shows "p / c / 2 ^ 53 < 1 / c"
proof -
  have "p / 2 ^ 53 < 1" using assms(1) by simp
  then have "p / 2 ^ 53 / c < 1 / c" using assms(2) by (rule divide_strict_right_mono)
  moreover have "p / 2 ^ 53 / c = p / c / 2 ^ 53" by (simp add: divide_divide_eq_left mult.commute)
  ultimately show ?thesis by simp
qed

lemma quotient_below_next:
  assumes "0 < (c::int)"
  shows "(of_int p :: rat) / of_int c \<le> of_int (p div c) + 1 - 1 / of_int c"
proof -
  have c: "(0::rat) < of_int c" using assms by simp
  have "p mod c \<le> c - 1" using assms by (simp add: zle_diff1_eq)
  moreover have "p = c * (p div c) + p mod c" by simp
  ultimately have "p \<le> c * (p div c) + (c - 1)" by linarith
  then have "(of_int p :: rat) \<le> of_int (c * (p div c) + (c - 1))" by (simp only: of_int_le_iff)
  then have "(of_int p :: rat) \<le> of_int c * of_int (p div c) + (of_int c - 1)" by simp
  then have "(of_int p :: rat) / of_int c \<le> (of_int c * of_int (p div c) + (of_int c - 1)) / of_int c"
    using c by (simp add: divide_right_mono)
  also have "\<dots> = of_int (p div c) + 1 - 1 / of_int c" using c by (simp add: field_simps)
  finally show ?thesis .
qed

lemma floor_roundDouble_quotient:
  assumes "0 \<le> p" "p < 2 ^ 53" "0 < c"
  shows "\<lfloor>roundDouble (of_int p / of_int c)\<rfloor> = p div c"
proof -
  let ?x = "(of_int p :: rat) / of_int c"
  let ?q = "p div c"
  have c: "(0::rat) < of_int c" using assms(3) by simp
  have p0: "(0::rat) \<le> of_int p" using assms(1) by simp
  have x0: "0 \<le> ?x" using p0 c by (intro divide_nonneg_pos)
  have pb: "(of_int p :: rat) < 2 ^ 53"
    using assms(2) by (metis of_int_less_numeral_power_cancel_iff)
  have fl: "\<lfloor>?x\<rfloor> = ?q" by (rule floor_divide_of_int_eq)
  have lower: "of_int ?q \<le> roundDouble ?x"
  proof (cases "1 \<le> ?x")
    case True
    have "(1::rat) \<le> of_int c" using assms(3) by simp
    with p0 have "?x \<le> of_int p" by (rule divide_le_self_rat)
    then have "?x < 2 ^ 53" using pb by linarith
    with True have "of_int \<lfloor>?x\<rfloor> \<le> roundDouble ?x" by (rule roundDouble_ge_floor)
    then show ?thesis by (simp only: fl)
  next
    case False
    then have "\<lfloor>?x\<rfloor> = 0" using x0 by (simp only: floor_eq_iff) simp
    then have "?q = 0" by (simp only: fl)
    then show ?thesis using roundDouble_nonneg[OF x0] by simp
  qed
  have upper: "roundDouble ?x < of_int ?q + 1"
  proof -
    have "roundDouble ?x - ?x \<le> \<bar>?x\<bar> / 2 ^ 53" using roundDouble_error[of ?x] by linarith
    moreover have "\<bar>?x\<bar> = ?x" using x0 by (rule abs_of_nonneg)
    ultimately have 1: "roundDouble ?x \<le> ?x + ?x / 2 ^ 53" by linarith
    have 2: "?x / 2 ^ 53 < 1 / of_int c" using pb c by (rule small_quotient_error)
    have 3: "?x \<le> of_int ?q + 1 - 1 / of_int c" using assms(3) by (rule quotient_below_next)
    show ?thesis using 1 2 3 by linarith
  qed
  show ?thesis using lower upper by (simp only: floor_eq_iff)
qed

lemma mulDivFloor_exact:
  assumes "0 \<le> a" "0 \<le> b" "a * b < 2 ^ 53" "0 < c"
  shows "mulDivFloor a b c = (a * b) div c"
proof -
  have p0: "0 \<le> a * b" using assms by simp
  then have "\<bar>a * b\<bar> < 2 ^ 53" using assms(3) by simp
  then have "roundDouble (of_int (a * b)) = of_int (a * b)" by (rule roundDouble_of_int)
  then have "mulDivFloor a b c = \<lfloor>roundDouble (of_int (a * b) / of_int c)\<rfloor>"
    by (simp add: mulDivFloor_def)
  also have "\<dots> = (a * b) div c" using p0 assms(3,4) by (rule floor_roundDouble_quotient)
  finally show ?thesis .
qed

lemma sum_bound_scaled:
  fixes K :: rat
  assumes "\<And>w. w \<in> set ws \<Longrightarrow> of_int (f w) \<le> of_int d * of_int w / of_int t * K"
  shows "of_int (sum_list (map f ws)) \<le> of_int d * of_int (sum_list ws) / of_int t * K"
  using assms
proof (induction ws)
  case Nil then show ?case by simp
next
  case (Cons w ws)
  have 1: "of_int (f w) \<le> of_int d * of_int w / of_int t * K" using Cons.prems by simp
  have 2: "of_int (sum_list (map f ws)) \<le> of_int d * of_int (sum_list ws) / of_int t * K"
    using Cons by simp
  have "of_int d * of_int (sum_list (w # ws)) / of_int t * K
        = of_int d * of_int w / of_int t * K + of_int d * of_int (sum_list ws) / of_int t * K"
    by (simp add: distrib_left distrib_right add_divide_distrib)
  then show ?case using 1 2 by simp
qed

lemma sum_mulDivFloor_bound:
  assumes "0 \<le> d" "0 < t" "\<forall>w \<in> set ws. 0 \<le> w"
  shows "(of_int (sum_list (map (\<lambda>w. mulDivFloor d w t) ws)) :: rat)
         \<le> of_int d * of_int (sum_list ws) / of_int t * (1 + 1 / 2 ^ 53)\<^sup>2"
proof (rule sum_bound_scaled)
  fix w assume "w \<in> set ws"
  then have "0 \<le> w" using assms(3) by simp
  with assms(1) show "(of_int (mulDivFloor d w t) :: rat)
      \<le> of_int d * of_int w / of_int t * (1 + 1 / 2 ^ 53)\<^sup>2"
    using assms(2) by (rule mulDivFloor_upper)
qed

lemma below_2_52:
  assumes "0 \<le> d" "d < 2 ^ 52"
  shows "(of_int d :: rat) * (1 + 1 / 2 ^ 53)\<^sup>2 < of_int d + 1"
proof -
  have "d \<le> 2 ^ 52 - 1" using assms(2) by simp
  then have "(of_int d :: rat) \<le> of_int (2 ^ 52 - 1)" by (simp only: of_int_le_iff)
  then have d: "(of_int d :: rat) \<le> 2 ^ 52 - 1" by simp
  have "(of_int d :: rat) * ((1 + 1 / 2 ^ 53)\<^sup>2 - 1) \<le> (2 ^ 52 - 1) * ((1 + 1 / 2 ^ 53)\<^sup>2 - 1)"
    using d by (intro mult_right_mono) simp_all
  also have "\<dots> < 1" by (simp add: power2_eq_square)
  finally show ?thesis by (simp add: algebra_simps)
qed

lemma sum_mulDivFloor_le:
  assumes "0 \<le> d" "d < 2 ^ 52" "0 < sum_list ws" "\<forall>w \<in> set ws. 0 \<le> w"
  shows "sum_list (map (\<lambda>w. mulDivFloor d w (sum_list ws)) ws) \<le> d"
proof -
  let ?t = "sum_list ws"
  have t: "(of_int ?t :: rat) \<noteq> 0" using assms(3) by simp
  have "(of_int (sum_list (map (\<lambda>w. mulDivFloor d w ?t) ws)) :: rat)
         \<le> of_int d * of_int ?t / of_int ?t * (1 + 1 / 2 ^ 53)\<^sup>2"
    using assms(1,3,4) by (rule sum_mulDivFloor_bound)
  also have "\<dots> = of_int d * (1 + 1 / 2 ^ 53)\<^sup>2" using t by simp
  also have "\<dots> < of_int d + 1" using assms(1,2) by (rule below_2_52)
  finally have "(of_int (sum_list (map (\<lambda>w. mulDivFloor d w ?t) ws)) :: rat) < of_int (d + 1)"
    by simp
  then have "sum_list (map (\<lambda>w. mulDivFloor d w ?t) ws) < d + 1" by (simp only: of_int_less_iff)
  then show ?thesis by simp
qed

lemma fee_in_pool:
  assumes "0 \<le> poolTotal" "poolTotal < 2 ^ 52" "0 \<le> bps" "bps \<le> 10000"
  shows "0 \<le> mulDivFloor poolTotal bps 10000" and "mulDivFloor poolTotal bps 10000 \<le> poolTotal"
proof -
  show "0 \<le> mulDivFloor poolTotal bps 10000" using assms(1,3) by (intro mulDivFloor_nonneg) simp_all
  have "(of_int bps :: rat) \<le> of_int 10000" using assms(4) by (simp only: of_int_le_iff)
  then have b: "(of_int bps :: rat) / 10000 \<le> 1" by simp
  have p: "(0::rat) \<le> of_int poolTotal" using assms(1) by simp
  have "(of_int (mulDivFloor poolTotal bps 10000) :: rat)
        \<le> of_int poolTotal * of_int bps / of_int 10000 * (1 + 1 / 2 ^ 53)\<^sup>2"
    using assms(1,3) by (intro mulDivFloor_upper) simp_all
  also have "\<dots> = of_int poolTotal * (of_int bps / 10000) * (1 + 1 / 2 ^ 53)\<^sup>2" by simp
  also have "\<dots> \<le> of_int poolTotal * 1 * (1 + 1 / 2 ^ 53)\<^sup>2"
    using b p by (intro mult_right_mono mult_left_mono) simp_all
  also have "\<dots> < of_int poolTotal + 1" using below_2_52[OF assms(1,2)] by simp
  finally have "(of_int (mulDivFloor poolTotal bps 10000) :: rat) < of_int (poolTotal + 1)" by simp
  then have "mulDivFloor poolTotal bps 10000 < poolTotal + 1" by (simp only: of_int_less_iff)
  then show "mulDivFloor poolTotal bps 10000 \<le> poolTotal" by simp
qed

subsection \<open>The shares of the custody settlement\<close>

lemma sum_floorPayouts:
  "sum_list (map Recipient.lamports (floorPayouts ws d t))
   = sum_list (map (\<lambda>w. mulDivFloor d w t) (map Recipient.lamports ws))"
  by (simp add: floorPayouts_def comp_def)

lemma floorPayouts_nonneg:
  assumes "0 \<le> d" "0 < t" "\<forall>w \<in> set ws. 0 \<le> Recipient.lamports w"
  shows "\<forall>p \<in> set (floorPayouts ws d t). 0 \<le> Recipient.lamports p"
  using assms by (auto simp: floorPayouts_def intro!: mulDivFloor_nonneg)

lemma addProRataPayouts_sum:
  assumes "0 \<le> d" "d < 2 ^ 52" "ws \<noteq> []" "\<forall>w \<in> set ws. 0 < Recipient.lamports w"
  shows "sum_list (map Recipient.lamports
           (addProRataPayouts ws d (sum_list (map Recipient.lamports ws)))) = d"
proof (cases "d = 0")
  case True then show ?thesis by (simp add: addProRataPayouts_def)
next
  case False
  let ?t = "sum_list (map Recipient.lamports ws)"
  have tpos: "0 < ?t" using assms(3,4) by (intro sum_list_pos_int) auto
  have d: "0 < d" using False assms by simp
  have "sum_list (map (\<lambda>w. mulDivFloor d w ?t) (map Recipient.lamports ws)) \<le> d"
    using assms(1,2) tpos by (rule sum_mulDivFloor_le) (use assms(4) in force)
  then have le: "sum_list (map Recipient.lamports (floorPayouts ws d ?t)) \<le> d"
    by (simp only: sum_floorPayouts)
  have ne: "floorPayouts ws d ?t \<noteq> []" using assms by (simp add: floorPayouts_def)
  show ?thesis using sum_addRemainderFirst[OF ne] le d tpos assms(3)
    by (simp add: addProRataPayouts_def Let_def)
qed

lemma addProRataPayouts_nonneg:
  assumes "\<forall>w \<in> set ws. 0 \<le> Recipient.lamports w"
  shows "\<forall>p \<in> set (addProRataPayouts ws d t). 0 \<le> Recipient.lamports p"
proof (cases "t \<le> 0 \<or> d \<le> 0 \<or> ws = []")
  case True then show ?thesis by (auto simp: addProRataPayouts_def)
next
  case False
  have "\<forall>p \<in> set (floorPayouts ws d t). 0 \<le> Recipient.lamports p"
    using assms False by (intro floorPayouts_nonneg) auto
  then show ?thesis using False addRemainderFirst_nonneg
    by (simp add: addProRataPayouts_def Let_def)
qed

text \<open>
  While the products stay below \<open>2^53\<close>, the shares of the sim settlement are the shares
  the double computation yields.
\<close>

lemma prepared_is_double:
  assumes "0 \<le> d" "0 < t" "\<forall>r \<in> set rs. 0 \<le> snd r \<and> d * snd r < 2 ^ 53"
  shows "prepared rs d t = map (\<lambda>item. (fst item, mulDivFloor d (snd item) t)) rs"
  using assms by (auto simp: prepared_def mulDivFloor_exact)

text \<open>
  Two stakes of 25 SOL on the winning side of a pool of 51 SOL: the exact shares are
  23970000000 each, the products exceed \<open>2^53\<close>, and both rounded quotients fall just below
  the exact share; the first recipient receives the remainder 2.
\<close>

lemma rounded_share_example: "mulDivFloor 47940000000 25000000000 50000000000 = 23969999999"
  by code_simp

lemma rounded_payouts_example:
  "addProRataPayouts [\<lparr>Recipient.wallet = ''alice'', Recipient.lamports = 25000000000\<rparr>,
                      \<lparr>Recipient.wallet = ''bob'', Recipient.lamports = 25000000000\<rparr>]
     47940000000 50000000000
   = [\<lparr>Recipient.wallet = ''alice'', Recipient.lamports = 23970000001\<rparr>,
      \<lparr>Recipient.wallet = ''bob'', Recipient.lamports = 23969999999\<rparr>]"
  by (simp add: addProRataPayouts_def floorPayouts_def rounded_share_example)

subsection \<open>Conservation of the pool\<close>

lemma fee_conserved:
  assumes "0 \<le> poolTotal" "poolTotal < 2 ^ 52" "0 \<le> bps" "bps \<le> 10000"
  shows "0 \<le> max 0 (poolTotal - mulDivFloor poolTotal bps 10000)"
    and "max 0 (poolTotal - mulDivFloor poolTotal bps 10000) < 2 ^ 52"
    and "max 0 (poolTotal - mulDivFloor poolTotal bps 10000) \<le> poolTotal"
    and "max 0 (poolTotal - mulDivFloor poolTotal bps 10000) + mulDivFloor poolTotal bps 10000
         = poolTotal"
  using fee_in_pool[OF assms] assms(2) by simp_all

text \<open>
  C2, as the code has it. Take a pool total below \<open>2^52\<close>, a fee rate between 0 and 10000
  basis points, the fee \<^verbatim>\<open>Math.floor((total * bps) / 10_000)\<close> and the distributable amount
  \<open>max 0 (total - fee)\<close> as the code computes them, and a non-empty list of recipients with
  positive weights whose sum is the divisor. Then the shares, as the doubles round them,
  together with the remainder put on the first recipient add up to the distributable
  amount, payouts plus fee are the pool total, and no allocation is negative: for the list
  built by \<^verbatim>\<open>addProRataPayouts\<close>, and for the map built by \<^verbatim>\<open>proRataCents\<close> (whose keys, the
  entry ids, are distinct) when the products of the pool total and a weight stay below
  \<open>2^53\<close>, where its shares are the exact quotients.
\<close>

theorem allocation_conserves_pool:
  assumes "ws \<noteq> []" and "\<forall>w \<in> set ws. 0 < Recipient.lamports w"
    and "rs \<noteq> []" and "\<forall>r \<in> set rs. 0 < snd r" and "distinct (map fst rs)"
    and "0 \<le> poolTotal" and "poolTotal < 2 ^ 52"
    and "0 \<le> bps" and "bps \<le> 10000"
    and "\<forall>r \<in> set rs. poolTotal * snd r < 2 ^ 53"
  shows "(let fee = mulDivFloor poolTotal bps 10000;
              distributable = max 0 (poolTotal - fee);
              payouts = addProRataPayouts ws distributable (sum_list (map Recipient.lamports ws));
              allocations = proRataCents rs distributable (sum_list (map snd rs))
          in 0 \<le> fee \<and> fee \<le> poolTotal
           \<and> sum_list (map Recipient.lamports payouts) = distributable
           \<and> sum_list (map Recipient.lamports payouts) + fee = poolTotal
           \<and> list_all (\<lambda>p. 0 \<le> Recipient.lamports p) payouts
           \<and> prepared rs distributable (sum_list (map snd rs))
               = map (\<lambda>item. (fst item,
                        mulDivFloor distributable (snd item) (sum_list (map snd rs)))) rs
           \<and> sum_list (map snd allocations) = distributable
           \<and> sum_list (map snd allocations) + fee = poolTotal
           \<and> list_all (\<lambda>p. 0 \<le> snd p) allocations)"
proof -
  let ?fee = "mulDivFloor poolTotal bps 10000"
  let ?d = "max 0 (poolTotal - ?fee)"
  note pool = assms(6,7,8,9)
  have fee: "0 \<le> ?fee" "?fee \<le> poolTotal" using fee_in_pool[OF pool] by simp_all
  have d: "0 \<le> ?d" "?d < 2 ^ 52" "?d \<le> poolTotal" "?d + ?fee = poolTotal"
    using fee_conserved[OF pool] by simp_all
  have 1: "sum_list (map Recipient.lamports
             (addProRataPayouts ws ?d (sum_list (map Recipient.lamports ws)))) = ?d"
    using d(1,2) assms(1,2) by (rule addProRataPayouts_sum)
  have 2: "\<forall>p \<in> set (addProRataPayouts ws ?d (sum_list (map Recipient.lamports ws))).
             0 \<le> Recipient.lamports p"
    by (rule addProRataPayouts_nonneg) (use assms(2) in force)
  have 3: "sum_list (map snd (proRataCents rs ?d (sum_list (map snd rs)))) = ?d"
    using assms(5) d(1) assms(3,4) by (rule proRataCents_sum)
  have 4: "\<forall>p \<in> set (proRataCents rs ?d (sum_list (map snd rs))). 0 \<le> snd p"
    by (rule proRataCents_nonneg) (use assms(4) in force)
  have tpos: "0 < sum_list (map snd rs)" using assms(3,4) by (intro sum_list_pos_int) auto
  have small: "\<forall>r \<in> set rs. 0 \<le> snd r \<and> ?d * snd r < 2 ^ 53"
  proof
    fix r assume r: "r \<in> set rs"
    then have p: "0 < snd r" using assms(4) by simp
    then have "?d * snd r \<le> poolTotal * snd r" using d(3) by (intro mult_right_mono) simp_all
    moreover have "poolTotal * snd r < 2 ^ 53" using assms(10) r by simp
    ultimately show "0 \<le> snd r \<and> ?d * snd r < 2 ^ 53" using p by linarith
  qed
  have 5: "prepared rs ?d (sum_list (map snd rs))
           = map (\<lambda>item. (fst item, mulDivFloor ?d (snd item) (sum_list (map snd rs)))) rs"
    using d(1) tpos small by (rule prepared_is_double)
  show ?thesis using fee 1 2 3 4 5 d(4) by (simp add: Let_def list_all_iff)
qed

theorem allocation_conserves_pool_witness:
  "sum_list (map Recipient.lamports
     (addProRataPayouts [\<lparr>Recipient.wallet = ''alice'', Recipient.lamports = 50\<rparr>,
                         \<lparr>Recipient.wallet = ''bob'', Recipient.lamports = 25\<rparr>] 99 75)) + 6 = 105
   \<and> sum_list (map snd (proRataCents [(''alice'', 50), (''bob'', 25)] 99 75)) + 6 = 105"
proof -
  have fee: "mulDivFloor 105 600 10000 = 6" by (simp add: mulDivFloor_exact)
  from allocation_conserves_pool
    [of "[\<lparr>Recipient.wallet = ''alice'', Recipient.lamports = 50\<rparr>,
          \<lparr>Recipient.wallet = ''bob'', Recipient.lamports = 25\<rparr>]"
        "[(''alice'', 50), (''bob'', 25)]" 105 FEE_BPS]
  show ?thesis by (simp add: fee FEE_BPS_def Let_def)
qed

lemma share_above_distributable:
  "mulDivFloor 5544335073585174 1954420791 1954420791 = 5544335073585175"
  by code_simp

text \<open>
  C2, as the specification words it, fails for pools from \<open>2^52\<close> lamports on and for fee
  rates above 10000. A single winner with a stake of 1954420791 lamports and a distributable
  amount of 5544335073585174 lamports: the product is rounded up, the quotient comes out as
  5544335073585175, one lamport more than there is to distribute, and the negative
  remainder is not applied. And with a fee rate of 20000 the fee of a pool of 100 is 200,
  nothing is distributable, and payouts plus fee are 200.
\<close>

theorem payouts_exceed_huge_pool:
  "sum_list (map Recipient.lamports
     (addProRataPayouts [\<lparr>Recipient.wallet = ''alice'', Recipient.lamports = 1954420791\<rparr>]
        5544335073585174 1954420791)) = 5544335073585175
   \<and> (2::int) ^ 52 \<le> 5544335073585174
   \<and> sum_list (map Recipient.lamports
        (addProRataPayouts [\<lparr>Recipient.wallet = ''alice'', Recipient.lamports = 100\<rparr>]
           (max 0 (100 - mulDivFloor 100 20000 10000)) 100))
       + mulDivFloor 100 20000 10000 = 200"
  by (simp add: addProRataPayouts_def floorPayouts_def share_above_distributable
      mulDivFloor_exact)

subsection \<open>The settlement decision\<close>

lemma totalCentsOf_pos:
  assumes "xs \<noteq> []" "\<forall>e \<in> set xs. 0 < stakeBucks e"
  shows "0 < totalCentsOf xs"
  unfolding totalCentsOf_def
  by (rule sum_list_pos_int) (use assms in \<open>auto simp: stakeCents_def\<close>)

lemma totalCentsOf_zero_iff:
  assumes "\<forall>e \<in> set xs. 0 < stakeBucks e"
  shows "totalCentsOf xs = 0 \<longleftrightarrow> xs = []"
  using totalCentsOf_pos[of xs] assms by (cases "xs = []") (auto simp: totalCentsOf_def)

lemma sumLamports_pos:
  assumes "xs \<noteq> []" "\<forall>e \<in> set xs. 0 < LedgerEntry.stakeLamports e"
  shows "0 < sumLamports xs"
  unfolding sumLamports_def
  by (rule sum_list_pos_int) (use assms in auto)

lemma sumLamports_zero_iff:
  assumes "\<forall>e \<in> set xs. 0 < LedgerEntry.stakeLamports e"
  shows "sumLamports xs = 0 \<longleftrightarrow> xs = []"
  using sumLamports_pos[of xs] assms by (cases "xs = []") (auto simp: sumLamports_def)

lemma totalCentsOf_nonneg:
  assumes "\<forall>e \<in> set xs. 0 < stakeBucks e"
  shows "0 \<le> totalCentsOf xs"
  using totalCentsOf_pos[of xs] assms by (cases "xs = []") (auto simp: totalCentsOf_def)

lemma sumLamports_nonneg:
  assumes "\<forall>e \<in> set xs. 0 < LedgerEntry.stakeLamports e"
  shows "0 \<le> sumLamports xs"
  using sumLamports_pos[of xs] assms by (cases "xs = []") (auto simp: sumLamports_def)

lemma decideSim_spec:
  assumes "\<forall>e \<in> set es. 0 < stakeBucks e"
  shows "decideSim es startP endP =
         spec_decision (totalCentsOf (filter (\<lambda>item. SimEntry.direction item = UP) es))
                       (totalCentsOf (filter (\<lambda>item. SimEntry.direction item = DOWN) es))
                       startP endP"
proof -
  have "totalCentsOf (filter (\<lambda>item. SimEntry.direction item = UP) es) = 0
        \<longleftrightarrow> filter (\<lambda>item. SimEntry.direction item = UP) es = []"
    by (rule totalCentsOf_zero_iff) (use assms in auto)
  moreover have "totalCentsOf (filter (\<lambda>item. SimEntry.direction item = DOWN) es) = 0
        \<longleftrightarrow> filter (\<lambda>item. SimEntry.direction item = DOWN) es = []"
    by (rule totalCentsOf_zero_iff) (use assms in auto)
  ultimately show ?thesis by (simp add: decideSim_def spec_decision_def Let_def)
qed

lemma settleRound_decision:
  assumes "settleRound orc now es = Some snap"
  shows "(SimRoundSettlement.mode (settlement snap), SimRoundSettlement.winnerSide (settlement snap))
         = decideSim es (SimRoundSettlement.startPrice (settlement snap))
                             (SimRoundSettlement.endPrice (settlement snap))"
  using assms by (auto simp: settleRound_def Let_def split: option.splits)

lemma decideCustody_spec:
  assumes "\<forall>e \<in> set items. 0 < LedgerEntry.stakeLamports e"
  shows "(fst (decideCustody items startP endP), fst (snd (decideCustody items startP endP))) =
         spec_decision (sumLamports (filter (\<lambda>item. LedgerEntry.direction item = UP) items))
                       (sumLamports (filter (\<lambda>item. LedgerEntry.direction item = DOWN) items))
                       startP endP"
  by (auto simp: decideCustody_def spec_decision_def Let_def)

lemma spec_decision_win:
  assumes "spec_decision u d sp ep = (WIN, w)" "0 \<le> u" "0 \<le> d"
  shows "(w = Some UP \<or> w = Some DOWN) \<and> 0 < u \<and> 0 < d \<and> sp \<noteq> ep"
  using assms by (auto simp: spec_decision_def split: if_splits)

text \<open>The example round, settled by both engines.\<close>

lemma scenarioA_custody:
  "createProcessingSettlement exampleEnv 400000 ''SOL-0-5m''
     [custodyEntry ''alice'' UP 50, custodyEntry ''bob'' UP 25, custodyEntry ''carol'' DOWN 30]
   = Some \<lparr> RoundSettlement.roundId = ''SOL-0-5m'', state = Some PROCESSING,
            RoundSettlement.settledAtMs = 400000, RoundSettlement.mode = WIN,
            RoundSettlement.winnerSide = Some UP, RoundSettlement.startPrice = 100,
            RoundSettlement.endPrice = 101, feeLamports = 6,
            plannedTransfers = Some
              [\<lparr> PlannedTransfer.transferId = ''fee-0'', PlannedTransfer.wallet = ''treasury'',
                 PlannedTransfer.lamports = 6, kind = fee \<rparr>,
               \<lparr> PlannedTransfer.transferId = ''payout-0'', PlannedTransfer.wallet = ''alice'',
                 PlannedTransfer.lamports = 66, kind = payout \<rparr>,
               \<lparr> PlannedTransfer.transferId = ''payout-1'', PlannedTransfer.wallet = ''bob'',
                 PlannedTransfer.lamports = 33, kind = payout \<rparr>],
            transfers = [] \<rparr>"
  by (simp add: createProcessingSettlement_def marketKey_def custodyLockSec_def custodyEndSec_def
      exampleEnv_def exampleOracle_def custodyEntry_def
      OPEN_ENTRY_SECONDS_def decideCustody_def distributableOf_def feeOf_def sumLamports_def
      FEE_BPS_def toRecipients_def addProRataPayouts_def floorPayouts_def planTransfers_def
      mulDivFloor_exact digitChar_def Let_def)

lemma scenarioA_sim:
  "settleRoundSafe exampleOracle 400000
     [simEntry ''alice'' UP 50 1000, simEntry ''bob'' UP 25 2000, simEntry ''carol'' DOWN 30 3000]
   = \<lparr> settlement = \<lparr> SimRoundSettlement.mode = WIN, SimRoundSettlement.winnerSide = Some UP,
                       SimRoundSettlement.startPrice = 100, SimRoundSettlement.endPrice = 101 \<rparr>,
       payoutsByEntryId = [(''alice'', 6580), (''bob'', 3290)], feeCents = 630,
       SimRoundSettlementSnapshot.settledAtMs = 400000 \<rparr>"
  by (simp add: settleRoundSafe_def settleRound_def fetchSnapshotNearTimestamp_def offsets_def
      marketOf_def lockTimestampSec_def roundEndSec_def exampleOracle_def simEntry_def
      totalCentsOf_def stakeCents_def recipientsOf_def decideSim_def proRataCents_def
      prepared_def FEE_BPS_def Let_def)

lemma simEntry_sel:
  "entryId (simEntry n d b j) = n" "SimEntry.direction (simEntry n d b j) = d"
  "stakeBucks (simEntry n d b j) = b" "SimEntry.joinedAtMs (simEntry n d b j) = j"
  "SimEntry.roundId (simEntry n d b j) = ''SOL-0-5m''"
  by (simp_all add: simEntry_def)

lemma custodyEntry_sel:
  "LedgerEntry.wallet (custodyEntry n d a) = n" "LedgerEntry.direction (custodyEntry n d a) = d"
  "LedgerEntry.stakeLamports (custodyEntry n d a) = a"
  by (simp_all add: custodyEntry_def)

lemma settleRound_priced:
  assumes "fetchSnapshotNearTimestamp orc (marketOf es) (lockTimestampSec now es) = Some sp"
    and "fetchSnapshotNearTimestamp orc (marketOf es) (roundEndSec now es) = Some ep"
  shows "settlement (settleRoundSafe orc now es)
         = \<lparr> SimRoundSettlement.mode = fst (decideSim es sp ep),
             SimRoundSettlement.winnerSide = snd (decideSim es sp ep),
             SimRoundSettlement.startPrice = sp, SimRoundSettlement.endPrice = ep \<rparr>"
  using assms by (simp add: settleRoundSafe_def settleRound_def Let_def)

lemma search_takes_scheduled_second:
  assumes "fetchOracleSnapshotAtTimestamp orc mkt (max 0 ts) = Some p"
  shows "fetchSnapshotNearTimestamp orc mkt ts = Some p"
  using assms by (simp add: fetchSnapshotNearTimestamp_def offsets_def)

lemma createProcessingSettlement_priced:
  assumes "fetchOracleSnapshotAtTimestamp (priceOracle env) (marketKey env items)
             (custodyLockSec now items) = Some sp"
    and "fetchOracleSnapshotAtTimestamp (priceOracle env) (marketKey env items)
             (custodyEndSec now items) = Some ep"
  shows "map_option (\<lambda>s. (RoundSettlement.mode s, RoundSettlement.winnerSide s,
                           RoundSettlement.startPrice s, RoundSettlement.endPrice s))
           (createProcessingSettlement env now rid items)
         = Some (fst (decideCustody items sp ep), fst (snd (decideCustody items sp ep)), sp, ep)"
  using assms by (simp add: createProcessingSettlement_def Let_def)

lemma createProcessingSettlement_unpriced:
  assumes "fetchOracleSnapshotAtTimestamp (priceOracle env) (marketKey env items)
             (custodyLockSec now items) = None \<or>
           fetchOracleSnapshotAtTimestamp (priceOracle env) (marketKey env items)
             (custodyEndSec now items) = None"
  shows "createProcessingSettlement env now rid items = None"
  using assms by (auto simp: createProcessingSettlement_def split: option.splits)

text \<open>
  C4. Let the stakes be positive. When the price search of the sim settlement yields the
  prices \<open>sim_start\<close> for the lock second and \<open>sim_end\<close> for the end second of the round,
  \<^verbatim>\<open>settleRound\<close> (through \<^verbatim>\<open>settleRoundSafe\<close>) records exactly these two prices, and its mode
  and winner are the value of the specification's rule on the two side totals and these
  two prices; and whenever the oracle has an answer for the lock second or the end second
  itself, that answer is the price the search yields. When the oracle answers \<open>start_price\<close> for the lock second and \<open>end_price\<close> for
  the end second of the round, \<^verbatim>\<open>createProcessingSettlement\<close> returns a settlement that
  records exactly these two prices, with mode and winner the value of the rule on the two
  side totals and these prices. Nothing else enters: WIN with winner UP exactly when both
  totals are nonzero and the end price is above the start price, WIN with winner DOWN
  exactly when both are nonzero and it is below, REFUND otherwise. Hence a WIN round has a
  winner UP or DOWN, positive totals on both sides and different prices.
\<close>

theorem settlement_decision_rule:
  assumes "\<forall>e \<in> set es. 0 < stakeBucks e"
    and "\<forall>e \<in> set items. 0 < LedgerEntry.stakeLamports e"
    and "fetchSnapshotNearTimestamp orc (marketOf es) (lockTimestampSec now es) = Some sim_start"
    and "fetchSnapshotNearTimestamp orc (marketOf es) (roundEndSec now es) = Some sim_end"
    and "fetchOracleSnapshotAtTimestamp (priceOracle env) (marketKey env items)
           (custodyLockSec now items) = Some start_price"
    and "fetchOracleSnapshotAtTimestamp (priceOracle env) (marketKey env items)
           (custodyEndSec now items) = Some end_price"
  shows "(let up_cents = totalCentsOf (filter (\<lambda>item. SimEntry.direction item = UP) es);
              down_cents = totalCentsOf (filter (\<lambda>item. SimEntry.direction item = DOWN) es);
              up_lamports = sumLamports (filter (\<lambda>item. LedgerEntry.direction item = UP) items);
              down_lamports = sumLamports (filter (\<lambda>item. LedgerEntry.direction item = DOWN) items);
              sim = spec_decision up_cents down_cents sim_start sim_end;
              custody = spec_decision up_lamports down_lamports start_price end_price
          in settlement (settleRoundSafe orc now es)
               = \<lparr> SimRoundSettlement.mode = fst sim, SimRoundSettlement.winnerSide = snd sim,
                   SimRoundSettlement.startPrice = sim_start,
                   SimRoundSettlement.endPrice = sim_end \<rparr>
           \<and> (\<forall>p. fetchOracleSnapshotAtTimestamp orc (marketOf es)
                     (max 0 (lockTimestampSec now es)) = Some p \<longrightarrow> sim_start = p)
           \<and> (\<forall>p. fetchOracleSnapshotAtTimestamp orc (marketOf es)
                     (max 0 (roundEndSec now es)) = Some p \<longrightarrow> sim_end = p)
           \<and> (fst sim = WIN \<longrightarrow>
                 (snd sim = Some UP \<or> snd sim = Some DOWN) \<and>
                 0 < up_cents \<and> 0 < down_cents \<and> sim_start \<noteq> sim_end)
           \<and> map_option (\<lambda>s. (RoundSettlement.mode s, RoundSettlement.winnerSide s,
                                RoundSettlement.startPrice s, RoundSettlement.endPrice s))
                 (createProcessingSettlement env now rid items)
               = Some (fst custody, snd custody, start_price, end_price)
           \<and> (fst custody = WIN \<longrightarrow>
                 (snd custody = Some UP \<or> snd custody = Some DOWN) \<and>
                 0 < up_lamports \<and> 0 < down_lamports \<and> start_price \<noteq> end_price))"
proof -
  let ?uc = "totalCentsOf (filter (\<lambda>item. SimEntry.direction item = UP) es)"
  let ?dc = "totalCentsOf (filter (\<lambda>item. SimEntry.direction item = DOWN) es)"
  let ?ul = "sumLamports (filter (\<lambda>item. LedgerEntry.direction item = UP) items)"
  let ?dl = "sumLamports (filter (\<lambda>item. LedgerEntry.direction item = DOWN) items)"
  let ?sim = "spec_decision ?uc ?dc sim_start sim_end"
  let ?cust = "spec_decision ?ul ?dl start_price end_price"
  have a: "settlement (settleRoundSafe orc now es)
           = \<lparr> SimRoundSettlement.mode = fst ?sim, SimRoundSettlement.winnerSide = snd ?sim,
               SimRoundSettlement.startPrice = sim_start, SimRoundSettlement.endPrice = sim_end \<rparr>"
    using settleRound_priced[OF assms(3,4)] decideSim_spec[OF assms(1)] by simp
  have nn: "0 \<le> ?uc" "0 \<le> ?dc"
    using assms(1) by (auto intro!: totalCentsOf_nonneg)
  have b: "fst ?sim = WIN \<longrightarrow>
             (snd ?sim = Some UP \<or> snd ?sim = Some DOWN) \<and> 0 < ?uc \<and> 0 < ?dc \<and> sim_start \<noteq> sim_end"
    using spec_decision_win[OF _ nn, of sim_start sim_end "snd ?sim"] by (metis prod.collapse)
  have c: "map_option (\<lambda>s. (RoundSettlement.mode s, RoundSettlement.winnerSide s,
                             RoundSettlement.startPrice s, RoundSettlement.endPrice s))
             (createProcessingSettlement env now rid items)
           = Some (fst ?cust, snd ?cust, start_price, end_price)"
    using createProcessingSettlement_priced[OF assms(5,6), of rid]
      decideCustody_spec[OF assms(2), of start_price end_price]
    by (simp add: prod_eq_iff)
  have nl: "0 \<le> ?ul" "0 \<le> ?dl"
    using assms(2) by (auto intro!: sumLamports_nonneg)
  have d: "fst ?cust = WIN \<longrightarrow>
             (snd ?cust = Some UP \<or> snd ?cust = Some DOWN) \<and> 0 < ?ul \<and> 0 < ?dl \<and>
             start_price \<noteq> end_price"
    using spec_decision_win[OF _ nl, of start_price end_price "snd ?cust"] by (metis prod.collapse)
  have e: "\<forall>p. fetchOracleSnapshotAtTimestamp orc (marketOf es)
                     (max 0 (lockTimestampSec now es)) = Some p \<longrightarrow> sim_start = p"
    using search_takes_scheduled_second[of orc "marketOf es" "lockTimestampSec now es"] assms(3)
    by auto
  have f: "\<forall>p. fetchOracleSnapshotAtTimestamp orc (marketOf es)
                     (max 0 (roundEndSec now es)) = Some p \<longrightarrow> sim_end = p"
    using search_takes_scheduled_second[of orc "marketOf es" "roundEndSec now es"] assms(4)
    by auto
  show ?thesis using a b c d e f by (simp add: Let_def)
qed

theorem settlement_decision_rule_witness:
  "settlement (settleRoundSafe exampleOracle 400000
       [simEntry ''alice'' UP 50 1000, simEntry ''bob'' UP 25 2000, simEntry ''carol'' DOWN 30 3000])
     = \<lparr> SimRoundSettlement.mode = WIN, SimRoundSettlement.winnerSide = Some UP,
         SimRoundSettlement.startPrice = 100, SimRoundSettlement.endPrice = 101 \<rparr>
   \<and> map_option (\<lambda>s. (RoundSettlement.mode s, RoundSettlement.winnerSide s,
                        RoundSettlement.startPrice s, RoundSettlement.endPrice s))
       (createProcessingSettlement exampleEnv 400000 ''SOL-0-5m''
          [custodyEntry ''alice'' UP 50, custodyEntry ''bob'' UP 25, custodyEntry ''carol'' DOWN 30])
     = Some (WIN, Some UP, 100, 101)"
proof -
  let ?es = "[simEntry ''alice'' UP 50 1000, simEntry ''bob'' UP 25 2000,
              simEntry ''carol'' DOWN 30 3000]"
  let ?items = "[custodyEntry ''alice'' UP 50, custodyEntry ''bob'' UP 25,
                 custodyEntry ''carol'' DOWN 30]"
  have sim: "\<forall>e \<in> set ?es. 0 < stakeBucks e" by (simp add: simEntry_sel)
  have cust: "\<forall>e \<in> set ?items. 0 < LedgerEntry.stakeLamports e" by (simp add: custodyEntry_sel)
  have s1: "fetchSnapshotNearTimestamp exampleOracle (marketOf ?es) (lockTimestampSec 400000 ?es)
            = Some 100"
    by (simp add: fetchSnapshotNearTimestamp_def offsets_def exampleOracle_def marketOf_def
        lockTimestampSec_def simEntry_def)
  have s2: "fetchSnapshotNearTimestamp exampleOracle (marketOf ?es) (roundEndSec 400000 ?es)
            = Some 101"
    by (simp add: fetchSnapshotNearTimestamp_def offsets_def exampleOracle_def marketOf_def
        roundEndSec_def simEntry_def)
  have c1: "fetchOracleSnapshotAtTimestamp (priceOracle exampleEnv) (marketKey exampleEnv ?items)
              (custodyLockSec 400000 ?items) = Some 100"
    by (simp add: exampleEnv_def exampleOracle_def custodyLockSec_def custodyEntry_def
        OPEN_ENTRY_SECONDS_def)
  have c2: "fetchOracleSnapshotAtTimestamp (priceOracle exampleEnv) (marketKey exampleEnv ?items)
              (custodyEndSec 400000 ?items) = Some 101"
    by (simp add: exampleEnv_def exampleOracle_def custodyEndSec_def custodyEntry_def)
  from settlement_decision_rule[OF sim cust s1 s2 c1 c2, of "''SOL-0-5m''"]
  show ?thesis
    by (simp add: simEntry_sel custodyEntry_sel totalCentsOf_def stakeCents_def
        sumLamports_def spec_decision_def Let_def)
qed

subsection \<open>Refund rounds and the fee\<close>

text \<open>
  The sim settlement takes no fee from a refund round: the fee is 0 and the refunds add up
  to the whole pool.
\<close>

lemma settleRound_refund_fee:
  assumes "settleRound orc now es = Some snap"
    and "SimRoundSettlement.mode (settlement snap) = REFUND"
  shows "feeCents snap = 0"
  using assms
  by (auto simp: settleRound_def decideSim_def Let_def split: option.splits if_splits)

lemma settleRound_refund_payouts:
  assumes "settleRound orc now es = Some snap"
    and "SimRoundSettlement.mode (settlement snap) = REFUND"
  shows "payoutsByEntryId snap = proRataCents (recipientsOf es) (max 0 (totalCentsOf es)) (totalCentsOf es)"
  using assms
  by (auto simp: settleRound_def decideSim_def Let_def split: option.splits if_splits)

lemma sum_recipientsOf: "sum_list (map snd (recipientsOf es)) = totalCentsOf es"
  by (simp add: recipientsOf_def totalCentsOf_def comp_def)

lemma sim_refund_pays_full_total:
  assumes "settleRound orc now es = Some snap"
    and "SimRoundSettlement.mode (settlement snap) = REFUND"
    and "es \<noteq> []" and "\<forall>e \<in> set es. 0 < stakeBucks e" and "distinct (map entryId es)"
  shows "feeCents snap = 0 \<and> sum_list (map snd (payoutsByEntryId snap)) = totalCentsOf es"
proof -
  have pos: "0 < totalCentsOf es" using assms(3,4) by (rule totalCentsOf_pos)
  have "sum_list (map snd (proRataCents (recipientsOf es) (totalCentsOf es)
           (sum_list (map snd (recipientsOf es))))) = totalCentsOf es"
    by (rule proRataCents_sum)
       (use assms(3,4,5) pos in \<open>auto simp: recipientsOf_def comp_def stakeCents_def\<close>)
  then show ?thesis
    using settleRound_refund_fee[OF assms(1,2)] settleRound_refund_payouts[OF assms(1,2)] pos
    by (simp add: sum_recipientsOf)
qed

text \<open>The custody settlement records the same fee whatever the mode.\<close>

lemma custody_fee_in_every_mode:
  assumes "createProcessingSettlement env now rid items = Some s"
  shows "feeLamports s = mulDivFloor (sumLamports items) FEE_BPS 10000"
  using assms by (auto simp: createProcessingSettlement_def feeOf_def Let_def split: option.splits)

text \<open>
  C1. A refund round carries no fee and pays the whole pool back. The custody settlement
  computes \<^verbatim>\<open>feeLamports\<close> before it looks at the mode, so it does not do this: for the
  one-sided round in which alice alone staked 1000 lamports on UP, the mode is REFUND, the
  fee is 60, a fee transfer of 60 to the treasury is planned and alice is refunded 940.
\<close>

theorem custody_refund_deducts_fee:
  "map_option (\<lambda>s. (RoundSettlement.mode s, feeLamports s, plannedTransfers s))
     (createProcessingSettlement exampleEnv 400000 ''SOL-0-5m'' [custodyEntry ''alice'' UP 1000])
   = Some (REFUND, 60,
       Some [\<lparr> PlannedTransfer.transferId = ''fee-0'', PlannedTransfer.wallet = ''treasury'',
                PlannedTransfer.lamports = 60, kind = fee \<rparr>,
             \<lparr> PlannedTransfer.transferId = ''payout-0'', PlannedTransfer.wallet = ''alice'',
                PlannedTransfer.lamports = 940, kind = payout \<rparr>])"
  by (simp add: createProcessingSettlement_def marketKey_def custodyLockSec_def custodyEndSec_def
      exampleEnv_def exampleOracle_def custodyEntry_def
      OPEN_ENTRY_SECONDS_def decideCustody_def distributableOf_def feeOf_def sumLamports_def
      FEE_BPS_def mergeByWallet_def addProRataPayouts_def floorPayouts_def planTransfers_def
      mulDivFloor_exact digitChar_def Let_def)

subsection \<open>Evaluating the sim settlement on concrete rounds\<close>

lemmas sim_eval = settleSimRoundOnce_def readSimRoundSettlement_def readSimEntriesForRoundIds_def
  writeSimRoundSettlement_def orderByJoinedAtDesc_def exampleStore_def
  settleRoundSafe_def settleRound_def buildRefundSettlement_def fetchSnapshotNearTimestamp_def
  offsets_def marketOf_def lockTimestampSec_def roundEndSec_def
  totalCentsOf_def stakeCents_def recipientsOf_def decideSim_def proRataCents_def
  prepared_def FEE_BPS_def Let_def

subsection \<open>Who receives the rounding remainder\<close>




lemma settleRoundSafe_payouts:
  "payoutsByEntryId (settleRoundSafe orc now es) =
     proRataCents (recipientsOf (recipientRows (settleRoundSafe orc now es) es))
       (max 0 (totalCentsOf es - feeCents (settleRoundSafe orc now es)))
       (totalCentsOf (recipientRows (settleRoundSafe orc now es) es))"
  by (auto simp: settleRoundSafe_def settleRound_def buildRefundSettlement_def recipientRows_def
        Let_def split: option.splits)

lemma settleRoundSafe_fee_bound:
  assumes "0 < totalCentsOf es"
  shows "0 \<le> feeCents (settleRoundSafe orc now es) \<and> feeCents (settleRoundSafe orc now es) < totalCentsOf es"
  using assms
  by (auto simp: settleRoundSafe_def settleRound_def buildRefundSettlement_def FEE_BPS_def
        Let_def split: option.splits)







subsection \<open>The oracle search and its fallback\<close>

lemma searchOffsets_all_fail:
  "\<forall>off \<in> set offs. fetchOracleSnapshotAtTimestamp orc mkt (max 0 (ts + off)) = None
   \<Longrightarrow> searchOffsets orc mkt ts offs = None"
  by (induction offs) auto

lemma searchOffsets_first:
  assumes "i < length offs"
    and "\<forall>j < i. fetchOracleSnapshotAtTimestamp orc mkt (max 0 (ts + offs ! j)) = None"
    and "fetchOracleSnapshotAtTimestamp orc mkt (max 0 (ts + offs ! i)) = Some p"
  shows "searchOffsets orc mkt ts offs = Some p"
  using assms
proof (induction offs arbitrary: i)
  case Nil then show ?case by simp
next
  case (Cons off rest)
  show ?case
  proof (cases i)
    case 0
    then show ?thesis using Cons.prems(3) by simp
  next
    case (Suc k)
    have first: "fetchOracleSnapshotAtTimestamp orc mkt (max 0 (ts + off)) = None"
      using Cons.prems(2) Suc by force
    have "searchOffsets orc mkt ts rest = Some p"
    proof (rule Cons.IH)
      show "k < length rest" using Cons.prems(1) Suc by simp
      show "\<forall>j < k. fetchOracleSnapshotAtTimestamp orc mkt (max 0 (ts + rest ! j)) = None"
      proof (intro allI impI)
        fix j assume "j < k"
        then have "Suc j < i" using Suc by simp
        then show "fetchOracleSnapshotAtTimestamp orc mkt (max 0 (ts + rest ! j)) = None"
          using Cons.prems(2) by fastforce
      qed
      show "fetchOracleSnapshotAtTimestamp orc mkt (max 0 (ts + rest ! k)) = Some p"
        using Cons.prems(3) Suc by simp
    qed
    then show ?thesis using first by simp
  qed
qed

lemma settleRound_None_iff:
  "settleRound orc now es = None \<longleftrightarrow>
     fetchSnapshotNearTimestamp orc (marketOf es) (lockTimestampSec now es) = None \<or>
     fetchSnapshotNearTimestamp orc (marketOf es) (roundEndSec now es) = None"
  by (auto simp: settleRound_def Let_def split: option.splits)

text \<open>
  C7, as the code has it. The search asks the oracle for the scheduled second and then for
  the seconds at offsets -1, -2, -5, -10, +1, +2, +5, +10 from it (clamped at 0), in this
  order, and returns the answer of the first request that succeeds: whenever a request
  succeeds and all requests before it in this order have failed, its price is the result.
  The live query \<^verbatim>\<open>fetchOracleSnapshot\<close> is the result only when all nine requests have
  failed, and then it is the result whatever it is. When both searches of a round return a
  price, the round is settled from these two prices by the usual decision, so also from a
  live price; only when a search returns nothing, that is when the live query has failed
  as well, does the round become a refund with both prices 0 and no fee.
\<close>

theorem oracle_fallback:
  shows "offsets = [0, -1, -2, -5, -10, 1, 2, 5, 10]
       \<and> (\<forall>i < length offsets.
            (\<forall>j < i. fetchOracleSnapshotAtTimestamp orc mkt (max 0 (ts + offsets ! j)) = None) \<and>
            fetchOracleSnapshotAtTimestamp orc mkt (max 0 (ts + offsets ! i)) = Some p
            \<longrightarrow> fetchSnapshotNearTimestamp orc mkt ts = Some p)
       \<and> ((\<forall>off \<in> set offsets.
             fetchOracleSnapshotAtTimestamp orc mkt (max 0 (ts + off)) = None)
          \<longrightarrow> fetchSnapshotNearTimestamp orc mkt ts = fetchOracleSnapshot orc mkt)
       \<and> (fetchSnapshotNearTimestamp orc (marketOf es) (lockTimestampSec now es) = Some sp \<and>
           fetchSnapshotNearTimestamp orc (marketOf es) (roundEndSec now es) = Some ep
          \<longrightarrow> settlement (settleRoundSafe orc now es)
                = \<lparr> SimRoundSettlement.mode = fst (decideSim es sp ep),
                    SimRoundSettlement.winnerSide = snd (decideSim es sp ep),
                    SimRoundSettlement.startPrice = sp, SimRoundSettlement.endPrice = ep \<rparr>)
       \<and> (fetchSnapshotNearTimestamp orc (marketOf es) (lockTimestampSec now es) = None \<or>
           fetchSnapshotNearTimestamp orc (marketOf es) (roundEndSec now es) = None
          \<longrightarrow> settleRoundSafe orc now es = buildRefundSettlement now es
            \<and> settlement (settleRoundSafe orc now es)
                = \<lparr> SimRoundSettlement.mode = REFUND, SimRoundSettlement.winnerSide = None,
                    SimRoundSettlement.startPrice = 0, SimRoundSettlement.endPrice = 0 \<rparr>
            \<and> feeCents (settleRoundSafe orc now es) = 0)"
proof (intro conjI allI impI)
  show "offsets = [0, -1, -2, -5, -10, 1, 2, 5, 10]" by (rule offsets_def)
next
  fix i
  assume i: "i < length offsets"
    and a: "(\<forall>j < i. fetchOracleSnapshotAtTimestamp orc mkt (max 0 (ts + offsets ! j)) = None) \<and>
            fetchOracleSnapshotAtTimestamp orc mkt (max 0 (ts + offsets ! i)) = Some p"
  have "searchOffsets orc mkt ts offsets = Some p"
    using i a by (intro searchOffsets_first) blast+
  then show "fetchSnapshotNearTimestamp orc mkt ts = Some p"
    by (simp add: fetchSnapshotNearTimestamp_def)
next
  assume a: "\<forall>off \<in> set offsets. fetchOracleSnapshotAtTimestamp orc mkt (max 0 (ts + off)) = None"
  show "fetchSnapshotNearTimestamp orc mkt ts = fetchOracleSnapshot orc mkt"
    using searchOffsets_all_fail[OF a] by (simp add: fetchSnapshotNearTimestamp_def)
next
  assume "fetchSnapshotNearTimestamp orc (marketOf es) (lockTimestampSec now es) = Some sp \<and>
          fetchSnapshotNearTimestamp orc (marketOf es) (roundEndSec now es) = Some ep"
  then show "settlement (settleRoundSafe orc now es)
                = \<lparr> SimRoundSettlement.mode = fst (decideSim es sp ep),
                    SimRoundSettlement.winnerSide = snd (decideSim es sp ep),
                    SimRoundSettlement.startPrice = sp, SimRoundSettlement.endPrice = ep \<rparr>"
    by (simp add: settleRoundSafe_def settleRound_def Let_def)
next
  assume a: "fetchSnapshotNearTimestamp orc (marketOf es) (lockTimestampSec now es) = None \<or>
           fetchSnapshotNearTimestamp orc (marketOf es) (roundEndSec now es) = None"
  then have n: "settleRound orc now es = None" by (simp add: settleRound_None_iff)
  then show "settleRoundSafe orc now es = buildRefundSettlement now es"
    by (simp add: settleRoundSafe_def)
  then show "settlement (settleRoundSafe orc now es)
                = \<lparr> SimRoundSettlement.mode = REFUND, SimRoundSettlement.winnerSide = None,
                    SimRoundSettlement.startPrice = 0, SimRoundSettlement.endPrice = 0 \<rparr>"
    and "feeCents (settleRoundSafe orc now es) = 0"
    by (simp_all add: buildRefundSettlement_def Let_def)
qed

theorem oracle_fallback_witness:
  "fetchSnapshotNearTimestamp liveOracle ''SOL'' 61 = Some 100
   \<and> fetchSnapshotNearTimestamp liveOracle ''SOL'' 360 = Some 101
   \<and> settlement (settleRoundSafe deadOracle 400000
         [simEntry ''alice'' UP 50 1000, simEntry ''carol'' DOWN 30 3000])
     = \<lparr> SimRoundSettlement.mode = REFUND, SimRoundSettlement.winnerSide = None,
         SimRoundSettlement.startPrice = 0, SimRoundSettlement.endPrice = 0 \<rparr>"
proof -
  let ?es = "[simEntry ''alice'' UP 50 1000, simEntry ''carol'' DOWN 30 3000]"
  have len: "1 < length offsets" by (simp add: offsets_def)
  have before: "\<forall>j < 1. fetchOracleSnapshotAtTimestamp liveOracle ''SOL''
                            (max 0 (61 + offsets ! j)) = None"
    by (simp add: liveOracle_def offsets_def)
  have hit: "fetchOracleSnapshotAtTimestamp liveOracle ''SOL'' (max 0 (61 + offsets ! 1)) = Some 100"
    by (simp add: liveOracle_def offsets_def)
  have a: "\<forall>off \<in> set offsets.
             fetchOracleSnapshotAtTimestamp liveOracle ''SOL'' (max 0 (360 + off)) = None"
    by (simp add: liveOracle_def offsets_def)
  have b: "fetchSnapshotNearTimestamp deadOracle (marketOf ?es) (lockTimestampSec 400000 ?es) = None"
    by (simp add: deadOracle_def fetchSnapshotNearTimestamp_def offsets_def)
  have 0: "fetchSnapshotNearTimestamp liveOracle ''SOL'' 61 = Some 100"
    using oracle_fallback[of liveOracle "''SOL''" 61 100] len before hit by blast
  have 1: "fetchSnapshotNearTimestamp liveOracle ''SOL'' 360 = fetchOracleSnapshot liveOracle ''SOL''"
    using oracle_fallback[of liveOracle "''SOL''" 360] a by blast
  have 2: "settlement (settleRoundSafe deadOracle 400000 ?es)
           = \<lparr> SimRoundSettlement.mode = REFUND, SimRoundSettlement.winnerSide = None,
               SimRoundSettlement.startPrice = 0, SimRoundSettlement.endPrice = 0 \<rparr>"
    using oracle_fallback[of deadOracle _ _ _ ?es 400000] b by blast
  show ?thesis using 0 1 2 by (simp add: liveOracle_def)
qed

text \<open>
  C7, as the specification words it, fails. For the round below no snapshot can be had at
  any of the nine seconds around the end second 360; the live price 101 is used as end
  price and the round is settled as a win of UP.
\<close>

theorem live_price_decides_win:
  "roundEndSec 400000 [simEntry ''alice'' UP 50 1000, simEntry ''carol'' DOWN 30 3000] = 360
   \<and> searchOffsets liveOracle ''SOL'' 360 offsets = None
   \<and> settlement (settleRoundSafe liveOracle 400000
         [simEntry ''alice'' UP 50 1000, simEntry ''carol'' DOWN 30 3000])
     = \<lparr> SimRoundSettlement.mode = WIN, SimRoundSettlement.winnerSide = Some UP,
         SimRoundSettlement.startPrice = 100, SimRoundSettlement.endPrice = 101 \<rparr>"
  by (simp add: sim_eval liveOracle_def simEntry_def)

subsection \<open>A round without entries\<close>

lemma read_no_entries:
  assumes "rid \<notin> SimEntry.roundId ` set (sim_entries st)"
  shows "readSimEntriesForRoundIds [rid] st = Inr [] \<or>
         readSimEntriesForRoundIds [rid] st = Inl BackendUnavailable"
proof -
  have "filter (\<lambda>e. SimEntry.roundId e \<in> set (remdups [rid])) (sim_entries st) = []"
    using assms by (auto simp: filter_empty_conv)
  then show ?thesis
    by (cases "backend st")
       (simp_all add: readSimEntriesForRoundIds_def orderByJoinedAtDesc_def Let_def)
qed

lemma read_rows_in_round:
  assumes "readSimEntriesForRoundIds [rid] st = Inr rows" "rows \<noteq> []"
  shows "rid \<in> SimEntry.roundId ` set (sim_entries st)"
proof -
  have "set rows \<subseteq> {e \<in> set (sim_entries st). SimEntry.roundId e = rid}"
    using assms(1)
    by (auto simp: readSimEntriesForRoundIds_def orderByJoinedAtDesc_def Let_def
             split: SimBackend.splits)
  then show ?thesis using assms(2) by (cases rows) auto
qed

lemma write_entries: "writeSimRoundSettlement rid rec st = Inr st' \<Longrightarrow>
   sim_entries st' = sim_entries st \<and> backend st' = backend st \<and>
   dom (sim_round_settlements st') \<subseteq> insert rid (dom (sim_round_settlements st))"
  by (auto simp: writeSimRoundSettlement_def split: SimBackend.splits option.splits)

lemma settle_once_cases:
  "snd (settleSimRoundOnce orc now rid st) = st \<or>
   (\<exists>rows rec. readSimEntriesForRoundIds [rid] st = Inr rows \<and> rows \<noteq> [] \<and>
      writeSimRoundSettlement rid rec st = Inr (snd (settleSimRoundOnce orc now rid st)))"
  by (auto simp: settleSimRoundOnce_def Let_def split: sum.splits option.splits)

text \<open>
  C10. In a store where every settled round has an entry, \<^verbatim>\<open>settleSimRoundOnce\<close> for a
  round without entries leaves the store as it is and returns \<^verbatim>\<open>null\<close> (when no database
  for settlements is available it throws instead, and still writes nothing); and whatever
  round it is called for, afterwards every settled round still has an entry.
\<close>

theorem no_entries_no_settlement:
  assumes "dom (sim_round_settlements st) \<subseteq> SimEntry.roundId ` set (sim_entries st)"
    and "rid \<notin> SimEntry.roundId ` set (sim_entries st)"
  shows "snd (settleSimRoundOnce orc now rid st) = st
       \<and> (fst (settleSimRoundOnce orc now rid st) = Inr None \<or>
          fst (settleSimRoundOnce orc now rid st) = Inl BackendUnavailable)
       \<and> (backend st = D1 \<or> backend st = Sqlite \<longrightarrow>
            fst (settleSimRoundOnce orc now rid st) = Inr None)
       \<and> dom (sim_round_settlements (snd (settleSimRoundOnce orc now other st)))
            \<subseteq> SimEntry.roundId ` set (sim_entries (snd (settleSimRoundOnce orc now other st)))"
proof -
  have none: "sim_round_settlements st rid = None" using assms by blast
  have rd: "readSimRoundSettlement rid st = Inr None \<or>
            readSimRoundSettlement rid st = Inl BackendUnavailable"
    using none by (cases "backend st") (simp_all add: readSimRoundSettlement_def)
  have 1: "snd (settleSimRoundOnce orc now rid st) = st \<and>
           (fst (settleSimRoundOnce orc now rid st) = Inr None \<or>
            fst (settleSimRoundOnce orc now rid st) = Inl BackendUnavailable)"
    using rd read_no_entries[OF assms(2)]
    by (auto simp: settleSimRoundOnce_def)
  have 2: "backend st = D1 \<or> backend st = Sqlite \<longrightarrow>
            fst (settleSimRoundOnce orc now rid st) = Inr None"
  proof
    assume b: "backend st = D1 \<or> backend st = Sqlite"
    then have "readSimRoundSettlement rid st = Inr None"
      using none by (auto simp: readSimRoundSettlement_def)
    moreover have "readSimEntriesForRoundIds [rid] st = Inr []"
      using read_no_entries[OF assms(2)] b
      by (auto simp: readSimEntriesForRoundIds_def Let_def)
    ultimately show "fst (settleSimRoundOnce orc now rid st) = Inr None"
      by (simp add: settleSimRoundOnce_def)
  qed
  have 3: "dom (sim_round_settlements (snd (settleSimRoundOnce orc now other st)))
            \<subseteq> SimEntry.roundId ` set (sim_entries (snd (settleSimRoundOnce orc now other st)))"
    using settle_once_cases[of orc now other st]
  proof
    assume "snd (settleSimRoundOnce orc now other st) = st"
    then show ?thesis using assms(1) by simp
  next
    assume "\<exists>rows rec. readSimEntriesForRoundIds [other] st = Inr rows \<and> rows \<noteq> [] \<and>
      writeSimRoundSettlement other rec st = Inr (snd (settleSimRoundOnce orc now other st))"
    then obtain rows rec where r: "readSimEntriesForRoundIds [other] st = Inr rows" "rows \<noteq> []"
      and w: "writeSimRoundSettlement other rec st = Inr (snd (settleSimRoundOnce orc now other st))"
      by blast
    have o: "other \<in> SimEntry.roundId ` set (sim_entries st)" using r by (rule read_rows_in_round)
    let ?st' = "snd (settleSimRoundOnce orc now other st)"
    have e: "sim_entries ?st' = sim_entries st"
      and d: "dom (sim_round_settlements ?st') \<subseteq> insert other (dom (sim_round_settlements st))"
      using write_entries[OF w] by simp_all
    have "insert other (dom (sim_round_settlements st)) \<subseteq> SimEntry.roundId ` set (sim_entries st)"
      using o assms(1) by simp
    then show ?thesis using d e by (metis subset_trans)
  qed
  show ?thesis using 1 2 3 by blast
qed

theorem no_entries_no_settlement_witness:
  "settleSimRoundOnce exampleOracle 400000 ''SOL-0-5m'' (exampleStore []) = (Inr None, exampleStore [])"
  using no_entries_no_settlement[of "exampleStore []" "''SOL-0-5m''" exampleOracle 400000 "''SOL-0-5m''"]
  by (simp add: exampleStore_def prod_eq_iff)

subsection \<open>Receipts of a round\<close>

lemma find_Some_mem: "find P xs = Some x \<Longrightarrow> x \<in> set xs \<and> P x"
  by (induction xs) (auto split: if_splits)

lemma updateFirst_roundIds:
  assumes "\<And>s. RoundSettlement.roundId (f s) = RoundSettlement.roundId s"
  shows "map RoundSettlement.roundId (updateFirst P f ss) = map RoundSettlement.roundId ss"
  using assms by (induction ss) auto

lemma updateFirst_set:
  "find P ss = Some s \<Longrightarrow> set (updateFirst P f ss) \<subseteq> insert (f s) (set ss)"
  by (induction ss) (auto split: if_splits)

lemma updateFirst_preserves:
  assumes "\<forall>s \<in> set ss. Q s" "\<And>s. s \<in> set ss \<Longrightarrow> P s \<Longrightarrow> Q (f s)"
  shows "\<forall>s \<in> set (updateFirst P f ss). Q s"
  using assms by (induction ss) auto

lemma pushTransfer_unique:
  assumes inv: "receiptsUnique L"
    and found: "findSettlement rid (data L) = Some s"
    and fresh: "truthy (TransferRecord.transferId t) \<longrightarrow>
                TransferRecord.transferId t \<notin> set (map TransferRecord.transferId (transfers s))"
  shows "receiptsUnique (pushTransfer rid t L)"
proof -
  let ?P = "\<lambda>item. RoundSettlement.roundId item = rid"
  let ?f = "\<lambda>item. item\<lparr>transfers := transfers item @ [t]\<rparr>"
  let ?ss = "settlements (data L)"
  have s: "s \<in> set ?ss" "RoundSettlement.roundId s = rid"
    using found find_Some_mem[of ?P ?ss s] by (auto simp: findSettlement_def)
  have ids: "map RoundSettlement.roundId (updateFirst ?P ?f ?ss) = map RoundSettlement.roundId ?ss"
    by (rule updateFirst_roundIds) simp
  have fs: "distinct (filter truthy (map TransferRecord.transferId (transfers (?f s))))"
    using inv s(1) fresh by (auto simp: receiptsUnique_def)
  have sub: "set (updateFirst ?P ?f ?ss) \<subseteq> insert (?f s) (set ?ss)"
    using found by (intro updateFirst_set) (simp add: findSettlement_def)
  have "\<forall>x \<in> set (updateFirst ?P ?f ?ss).
          distinct (filter truthy (map TransferRecord.transferId (transfers x)))"
  proof
    fix x assume "x \<in> set (updateFirst ?P ?f ?ss)"
    then have "x = ?f s \<or> x \<in> set ?ss" using sub by blast
    then show "distinct (filter truthy (map TransferRecord.transferId (transfers x)))"
      using fs inv by (auto simp: receiptsUnique_def)
  qed
  then show ?thesis using inv ids by (simp add: receiptsUnique_def pushTransfer_def)
qed

lemma truthy_not_None: "truthy x \<Longrightarrow> x \<noteq> None"
  by (cases x) (auto simp: truthy_def)

lemma append_cases:
  assumes "appendSettlementTransfer rid t L = Inr L'"
  shows "L' = L \<or>
         (\<exists>s. findSettlement rid (data L) = Some s \<and> L' = pushTransfer rid t L \<and>
              (truthy (TransferRecord.transferId t) \<longrightarrow>
                 TransferRecord.transferId t \<notin> set (map TransferRecord.transferId (transfers s))))"
proof (cases "findSettlement rid (data L)")
  case None
  then show ?thesis using assms by (auto simp: appendSettlementTransfer_def split: if_splits)
next
  case (Some s)
  have t: "truthy (TransferRecord.transferId t) \<Longrightarrow> TransferRecord.transferId t \<noteq> None"
    by (rule truthy_not_None)
  show ?thesis
    using assms Some t
    by (auto simp: appendSettlementTransfer_def image_iff split: if_splits)
qed

lemma append_preserves_unique:
  assumes "receiptsUnique L" "appendSettlementTransfer rid t L = Inr L'"
  shows "receiptsUnique L'"
  using append_cases[OF assms(2)] assms(1) pushTransfer_unique by blast

lemma append_is_noop:
  assumes "findSettlement rid (data L) = Some s"
    and "(truthy (TransferRecord.transferId t) \<and>
           TransferRecord.transferId t \<in> set (map TransferRecord.transferId (transfers s)))
         \<or> TransferRecord.signature t \<in> set (map TransferRecord.signature (transfers s))"
  shows "appendSettlementTransfer rid t L = Inr L"
proof -
  let ?A = "truthy (TransferRecord.transferId t) \<and>
            (\<exists>item \<in> set (transfers s). TransferRecord.transferId item = TransferRecord.transferId t)"
  let ?B = "\<exists>item \<in> set (transfers s). TransferRecord.signature item = TransferRecord.signature t"
  have s: "s \<in> set (settlements (data L))"
    using assms(1) find_Some_mem by (fastforce simp: findSettlement_def)
  have ab: "?A \<or> ?B" using assms(2) by (auto simp: image_iff)
  show ?thesis
  proof (cases "pool L")
    case False
    then show ?thesis using ab by (auto simp: appendSettlementTransfer_def assms(1))
  next
    case True
    have "?A \<Longrightarrow> TransferRecord.transferId t \<noteq> None" by (simp add: truthy_not_None)
    moreover have "?B \<Longrightarrow> \<exists>other \<in> set (settlements (data L)). \<exists>item \<in> set (transfers other).
                      TransferRecord.signature item = TransferRecord.signature t"
      using s by blast
    ultimately show ?thesis
      using ab True by (cases ?A) (simp_all add: appendSettlementTransfer_def assms(1))
  qed
qed

lemma alreadySent_mono:
  "alreadySent s p \<Longrightarrow> alreadySent (s\<lparr>transfers := transfers s @ [r]\<rparr>) p"
  by (auto simp: alreadySent_def)

lemma transferLoop_submitted:
  "\<forall>p \<in> set (snd (snd (snd (transferLoop env rid planned (s, L, sub))))).
     p \<in> set sub \<or> \<not> alreadySent s p"
proof (induction planned arbitrary: s L sub)
  case Nil
  show ?case by simp
next
  case (Cons transfer rest)
  show ?case
  proof (cases "alreadySent s transfer")
    case True
    then show ?thesis using Cons.IH[of s L sub] by simp
  next
    case False
    let ?sub = "if PlannedTransfer.lamports transfer \<le> 0 then sub else sub @ [transfer]"
    have sub: "\<forall>p \<in> set ?sub. p \<in> set sub \<or> \<not> alreadySent s p" using False by auto
    show ?thesis
    proof (cases "sendTransfer env \<lparr> Recipient.wallet = PlannedTransfer.wallet transfer,
                                     Recipient.lamports = PlannedTransfer.lamports transfer \<rparr>")
      case None
      then show ?thesis using False sub by (simp add: Let_def)
    next
      case (Some sig)
      show ?thesis
      proof (cases "sig = ''skipped''")
        case True
        then show ?thesis using False Some sub Cons.IH[of s L ?sub] by (auto simp: Let_def)
      next
        case nsk: False
        show ?thesis
        proof (cases "appendSettlementTransfer rid (receiptOf transfer sig) L")
          case (Inl err)
          then show ?thesis using False Some nsk sub by (simp add: Let_def)
        next
          case (Inr L')
          let ?s = "s\<lparr>transfers := transfers s @ [receiptOf transfer sig]\<rparr>"
          have "\<forall>p \<in> set (snd (snd (snd (transferLoop env rid rest (?s, L', ?sub))))).
                  p \<in> set ?sub \<or> \<not> alreadySent ?s p"
            by (rule Cons.IH)
          then have "\<forall>p \<in> set (snd (snd (snd (transferLoop env rid rest (?s, L', ?sub))))).
                  p \<in> set sub \<or> \<not> alreadySent s p"
            using sub alreadySent_mono by blast
          then show ?thesis using False Some nsk Inr by (simp add: Let_def)
        qed
      qed
    qed
  qed
qed

lemma transferLoop_unique:
  "receiptsUnique L \<Longrightarrow>
   receiptsUnique (fst (snd (snd (transferLoop env rid planned (s, L, sub)))))"
proof (induction planned arbitrary: s L sub)
  case Nil
  then show ?case by simp
next
  case (Cons transfer rest)
  show ?case
  proof (cases "alreadySent s transfer")
    case True
    then show ?thesis using Cons by simp
  next
    case False
    let ?sub = "if PlannedTransfer.lamports transfer \<le> 0 then sub else sub @ [transfer]"
    show ?thesis
    proof (cases "sendTransfer env \<lparr> Recipient.wallet = PlannedTransfer.wallet transfer,
                                     Recipient.lamports = PlannedTransfer.lamports transfer \<rparr>")
      case None
      then show ?thesis using False Cons.prems by (simp add: Let_def)
    next
      case (Some sig)
      show ?thesis
      proof (cases "sig = ''skipped''")
        case True
        then show ?thesis using False Some Cons.IH[OF Cons.prems, of s ?sub] by (simp add: Let_def)
      next
        case nsk: False
        show ?thesis
        proof (cases "appendSettlementTransfer rid (receiptOf transfer sig) L")
          case (Inl err)
          then show ?thesis using False Some nsk Cons.prems by (simp add: Let_def)
        next
          case (Inr L')
          have "receiptsUnique L'" using Cons.prems Inr by (rule append_preserves_unique)
          then show ?thesis using False Some nsk Inr Cons.IH[of L'] by (simp add: Let_def)
        qed
      qed
    qed
  qed
qed

lemma tryAcquire_data: "data (snd (tryAcquireRoundProcessingLock now rid stale L)) = data L"
  by (auto simp: tryAcquireRoundProcessingLock_def Let_def split: option.splits)

lemma receiptsUnique_data: "data L' = data L \<Longrightarrow> receiptsUnique L' = receiptsUnique L"
  by (simp add: receiptsUnique_def)

lemma release_data: "data (releaseRoundProcessingLock rid L) = data L"
  by (simp add: releaseRoundProcessingLock_def)

lemma markCompleted_unique:
  assumes "receiptsUnique L" shows "receiptsUnique (markSettlementCompleted now rid L)"
proof -
  let ?P = "\<lambda>item. RoundSettlement.roundId item = rid"
  let ?f = "\<lambda>item. item\<lparr>state := Some COMPLETED, RoundSettlement.settledAtMs := now\<rparr>"
  have "map RoundSettlement.roundId (updateFirst ?P ?f (settlements (data L)))
        = map RoundSettlement.roundId (settlements (data L))"
    by (rule updateFirst_roundIds) simp
  moreover have "\<forall>x \<in> set (updateFirst ?P ?f (settlements (data L))).
          distinct (filter truthy (map TransferRecord.transferId (transfers x)))"
    by (rule updateFirst_preserves) (use assms in \<open>auto simp: receiptsUnique_def\<close>)
  ultimately show ?thesis using assms by (simp add: receiptsUnique_def markSettlementCompleted_def)
qed

lemma addRoundSettlement_unique:
  assumes "receiptsUnique L" "transfers s = []"
  shows "receiptsUnique (addRoundSettlement s L)"
  using assms by (auto simp: receiptsUnique_def addRoundSettlement_def)

lemma created_no_transfers:
  "createProcessingSettlement env now rid items = Some s \<Longrightarrow> transfers s = []"
  by (auto simp: createProcessingSettlement_def Let_def split: option.splits)

lemma settleOneRound_submitted:
  assumes "findSettlement rid (data L) = Some s"
  shows "\<forall>p \<in> set (snd (settleOneRound env now rid items L)). \<not> alreadySent s p"
proof -
  obtain b L1 where t: "tryAcquireRoundProcessingLock now rid defaultStaleAfterMs L = (b, L1)"
    by (cases "tryAcquireRoundProcessingLock now rid defaultStaleAfterMs L")
  have d: "data L1 = data L" using tryAcquire_data[of now rid defaultStaleAfterMs L] t by simp
  let ?planned = "case plannedTransfers s of None \<Rightarrow> [] | Some ps \<Rightarrow> ps"
  obtain ok s' L3 subm where l: "transferLoop env rid ?planned (s, L1, []) = (ok, s', L3, subm)"
    by (cases "transferLoop env rid ?planned (s, L1, [])")
  have subm: "\<forall>p \<in> set subm. \<not> alreadySent s p"
    using transferLoop_submitted[of env rid ?planned s L1 "[]"] l by simp
  show ?thesis
  proof (cases b)
    case False
    then show ?thesis using t by (simp add: settleOneRound_def)
  next
    case True
    show ?thesis
    proof (cases "state s = Some COMPLETED")
      case c: True
      then show ?thesis using t True assms d by (simp add: settleOneRound_def)
    next
      case c: False
      then show ?thesis using t True assms d l subm
        by (cases ok) (simp_all add: settleOneRound_def Let_def)
    qed
  qed
qed

lemma settleOneRound_unique:
  assumes "receiptsUnique L"
  shows "receiptsUnique (fst (settleOneRound env now rid items L))"
proof -
  obtain b L1 where t: "tryAcquireRoundProcessingLock now rid defaultStaleAfterMs L = (b, L1)"
    by (cases "tryAcquireRoundProcessingLock now rid defaultStaleAfterMs L")
  have d: "data L1 = data L" using tryAcquire_data[of now rid defaultStaleAfterMs L] t by simp
  have u1: "receiptsUnique L1" using assms receiptsUnique_data[OF d] by simp
  have rel: "\<And>X. receiptsUnique X \<Longrightarrow> receiptsUnique (releaseRoundProcessingLock rid X)"
    using receiptsUnique_data[OF release_data] by simp
  have loop: "\<And>(s0::RoundSettlement) L2. receiptsUnique L2 \<Longrightarrow>
     receiptsUnique (fst (case transferLoop env rid
                           (case plannedTransfers s0 of None \<Rightarrow> [] | Some ps \<Rightarrow> ps) (s0, L2, []) of
        (False, s', L3, submitted) \<Rightarrow> (releaseRoundProcessingLock rid L3, submitted)
      | (True, s', L3, submitted) \<Rightarrow>
          (let refreshed = (case findSettlement rid (data L3) of Some r \<Rightarrow> r | None \<Rightarrow> s');
               L4 = (if allSent refreshed then markSettlementCompleted now rid L3 else L3)
           in (releaseRoundProcessingLock rid L4, submitted))))"
  proof -
    fix s0 :: RoundSettlement and L2 assume u: "receiptsUnique L2"
    let ?planned = "case plannedTransfers s0 of None \<Rightarrow> [] | Some ps \<Rightarrow> ps"
    obtain ok s' L3 subm where l: "transferLoop env rid ?planned (s0, L2, []) = (ok, s', L3, subm)"
      by (cases "transferLoop env rid ?planned (s0, L2, [])")
    have u3: "receiptsUnique L3" using transferLoop_unique[OF u, of env rid ?planned s0 "[]"] l by simp
    show "receiptsUnique (fst (case transferLoop env rid ?planned (s0, L2, []) of
        (False, s', L3, submitted) \<Rightarrow> (releaseRoundProcessingLock rid L3, submitted)
      | (True, s', L3, submitted) \<Rightarrow>
          (let refreshed = (case findSettlement rid (data L3) of Some r \<Rightarrow> r | None \<Rightarrow> s');
               L4 = (if allSent refreshed then markSettlementCompleted now rid L3 else L3)
           in (releaseRoundProcessingLock rid L4, submitted))))"
      using l u3 rel markCompleted_unique by (cases ok) (simp_all add: Let_def)
  qed
  show ?thesis
  proof (cases b)
    case False
    then show ?thesis using t u1 by (simp add: settleOneRound_def)
  next
    case True
    show ?thesis
    proof (cases "findSettlement rid (data L1)")
      case (Some s)
      then show ?thesis using t True u1 rel loop[OF u1, of s]
        by (simp add: settleOneRound_def Let_def)
    next
      case None
      show ?thesis
      proof (cases "createProcessingSettlement env now rid items")
        case n: None
        then show ?thesis using t True None u1 rel by (simp add: settleOneRound_def Let_def)
      next
        case (Some s)
        have "receiptsUnique (addRoundSettlement s L1)"
          using u1 created_no_transfers[OF Some] by (rule addRoundSettlement_unique)
        then show ?thesis using t True None Some loop[of "addRoundSettlement s L1" s]
          by (simp add: settleOneRound_def Let_def)
      qed
    qed
  qed
qed

text \<open>
  A resumed run on the file ledger: the two transfers with a receipt are passed over, the
  third is sent and receipted, and the round is marked completed.
\<close>

lemma resumed_run:
  "settleOneRound exampleEnv 500000 ''SOL-0-5m'' [] resumedLedger
   = (\<lparr> pool = False,
        data = \<lparr> entries = [],
                 settlements = [resumedSettlement
                   \<lparr> state := Some COMPLETED, RoundSettlement.settledAtMs := 500000,
                     transfers := transfers resumedSettlement @
                       [\<lparr> TransferRecord.transferId = Some ''payout-1'',
                          TransferRecord.wallet = ''bob'', TransferRecord.lamports = 33,
                          TransferRecord.signature = ''tx-bob'' \<rparr>] \<rparr>] \<rparr>,
        locks = Map.empty, join_attempts = [],
        inMemoryWalletJoinAttempts = (\<lambda>w. []), inMemoryIpJoinAttempts = (\<lambda>addr. []) \<rparr>,
      [\<lparr> PlannedTransfer.transferId = ''payout-1'', PlannedTransfer.wallet = ''bob'',
         PlannedTransfer.lamports = 33, kind = payout \<rparr>])"
  by (simp add: settleOneRound_def tryAcquireRoundProcessingLock_def resumedLedger_def
      resumedSettlement_def plannedExample_def findSettlement_def alreadySent_def
      sendTransfer_def exampleEnv_def receiptOf_def appendSettlementTransfer_def truthy_def
      pushTransfer_def allSent_def markSettlementCompleted_def releaseRoundProcessingLock_def
      Let_def)

text \<open>
  C5. In a ledger with at most one receipt per round and transfer id,
  \<^verbatim>\<open>appendSettlementTransfer\<close> keeps it so; appending a receipt whose transfer id or
  signature is already recorded for the round returns without changing the ledger; a
  settlement run that finds the round's settlement in the ledger hands no planned transfer
  to the chain that has a receipt there; and the ledger after the run again has at most
  one receipt per round and transfer id.
\<close>

theorem receipts_stay_unique:
  assumes "receiptsUnique L"
  shows "(appendSettlementTransfer rid t L = Inr L' \<longrightarrow> receiptsUnique L')
       \<and> (findSettlement rid (data L) = Some s \<and>
            ((truthy (TransferRecord.transferId t) \<and>
              TransferRecord.transferId t \<in> set (map TransferRecord.transferId (transfers s)))
             \<or> TransferRecord.signature t \<in> set (map TransferRecord.signature (transfers s)))
          \<longrightarrow> appendSettlementTransfer rid t L = Inr L)
       \<and> (findSettlement rid (data L) = Some s \<longrightarrow>
            (\<forall>p \<in> set (snd (settleOneRound env now rid items L)). \<not> alreadySent s p))
       \<and> receiptsUnique (fst (settleOneRound env now rid items L))"
  using assms append_preserves_unique append_is_noop settleOneRound_submitted
    settleOneRound_unique
  by (intro conjI impI) blast+

theorem receipts_stay_unique_witness:
  "receiptsUnique resumedLedger
   \<and> appendSettlementTransfer ''SOL-0-5m''
        \<lparr> TransferRecord.transferId = Some ''payout-0'', TransferRecord.wallet = ''alice'',
          TransferRecord.lamports = 66, TransferRecord.signature = ''tx-again'' \<rparr> resumedLedger
      = Inr resumedLedger
   \<and> list_all (\<lambda>p. \<not> alreadySent resumedSettlement p)
        (snd (settleOneRound exampleEnv 500000 ''SOL-0-5m'' [] resumedLedger))
   \<and> receiptsUnique (fst (settleOneRound exampleEnv 500000 ''SOL-0-5m'' [] resumedLedger))"
proof -
  have inv: "receiptsUnique resumedLedger"
    by (simp add: receiptsUnique_def resumedLedger_def resumedSettlement_def truthy_def)
  have f: "findSettlement ''SOL-0-5m'' (data resumedLedger) = Some resumedSettlement"
    by (simp add: findSettlement_def resumedLedger_def resumedSettlement_def)
  have dup: "truthy (Some ''payout-0'') \<and>
             Some ''payout-0'' \<in> set (map TransferRecord.transferId (transfers resumedSettlement))"
    by (simp add: truthy_def resumedSettlement_def)
  note th = receipts_stay_unique[OF inv, of "''SOL-0-5m''"
      "\<lparr> TransferRecord.transferId = Some ''payout-0'', TransferRecord.wallet = ''alice'',
         TransferRecord.lamports = 66, TransferRecord.signature = ''tx-again'' \<rparr>"
      _ resumedSettlement exampleEnv 500000 "[]"]
  have 1: "appendSettlementTransfer ''SOL-0-5m''
        \<lparr> TransferRecord.transferId = Some ''payout-0'', TransferRecord.wallet = ''alice'',
          TransferRecord.lamports = 66, TransferRecord.signature = ''tx-again'' \<rparr> resumedLedger
      = Inr resumedLedger"
    using th f dup by simp
  have 2: "\<forall>p \<in> set (snd (settleOneRound exampleEnv 500000 ''SOL-0-5m'' [] resumedLedger)).
             \<not> alreadySent resumedSettlement p"
    using th f by blast
  have 3: "receiptsUnique (fst (settleOneRound exampleEnv 500000 ''SOL-0-5m'' [] resumedLedger))"
    using th by blast
  show ?thesis using inv 1 2 3 by (simp add: list_all_iff)
qed

subsection \<open>The round processing lock\<close>

lemma acquire_only_when_free:
  assumes "pool L" "fst (tryAcquireRoundProcessingLock now rid stale L)"
  shows "locks L rid = None \<or> (\<exists>a. locks L rid = Some a \<and> max 1 stale < now - a)"
  using assms
  by (auto simp: tryAcquireRoundProcessingLock_def Let_def split: option.splits if_splits)

lemma acquire_sets_lock:
  assumes "pool L" "fst (tryAcquireRoundProcessingLock now rid stale L)"
  shows "locks (snd (tryAcquireRoundProcessingLock now rid stale L)) rid = Some now \<and>
         pool (snd (tryAcquireRoundProcessingLock now rid stale L))"
  using assms
  by (auto simp: tryAcquireRoundProcessingLock_def Let_def split: option.splits if_splits)

lemma fresh_lock_refuses:
  assumes "pool L" "locks L rid = Some a" "now - a \<le> max 1 stale"
  shows "tryAcquireRoundProcessingLock now rid stale L = (False, L)"
  using assms by (auto simp: tryAcquireRoundProcessingLock_def Let_def)

lemma fresh_lock_stops_settlement:
  assumes "pool L" "locks L rid = Some a" "now - a \<le> max 1 defaultStaleAfterMs"
  shows "settleOneRound env now rid items L = (L, [])"
  using fresh_lock_refuses[OF assms] by (simp add: settleOneRound_def)

text \<open>
  C6, as the code has it. On the pool, an acquisition succeeds only when the round has no
  lock row or the row is older than \<open>max 1 staleAfterMs\<close>; after a success every attempt
  made no later than that age is refused and changes nothing, and a settlement turn for
  the round made in that time does nothing. Without a pool every acquisition succeeds and
  no lock is kept.
\<close>

theorem round_lock_exclusion:
  "(pool L \<longrightarrow>
      (fst (tryAcquireRoundProcessingLock now rid stale L) \<longrightarrow>
         locks L rid = None \<or> (\<exists>a. locks L rid = Some a \<and> max 1 stale < now - a))
    \<and> (fst (tryAcquireRoundProcessingLock now rid stale L) \<and> later - now \<le> max 1 stale \<longrightarrow>
         tryAcquireRoundProcessingLock later rid stale
           (snd (tryAcquireRoundProcessingLock now rid stale L))
         = (False, snd (tryAcquireRoundProcessingLock now rid stale L)))
    \<and> (fst (tryAcquireRoundProcessingLock now rid defaultStaleAfterMs L) \<and>
        later - now \<le> max 1 defaultStaleAfterMs \<longrightarrow>
         settleOneRound env later rid items
           (snd (tryAcquireRoundProcessingLock now rid defaultStaleAfterMs L))
         = (snd (tryAcquireRoundProcessingLock now rid defaultStaleAfterMs L), [])))
   \<and> (\<not> pool L \<longrightarrow> tryAcquireRoundProcessingLock now rid stale L = (True, L))"
proof (intro conjI impI)
  assume "pool L" "fst (tryAcquireRoundProcessingLock now rid stale L)"
  then show "locks L rid = None \<or> (\<exists>a. locks L rid = Some a \<and> max 1 stale < now - a)"
    by (rule acquire_only_when_free)
next
  assume p: "pool L"
    and a: "fst (tryAcquireRoundProcessingLock now rid stale L) \<and> later - now \<le> max 1 stale"
  let ?L = "snd (tryAcquireRoundProcessingLock now rid stale L)"
  have "locks ?L rid = Some now" "pool ?L" using acquire_sets_lock[OF p] a by simp_all
  then show "tryAcquireRoundProcessingLock later rid stale ?L = (False, ?L)"
    using a by (intro fresh_lock_refuses) auto
next
  assume p: "pool L"
    and a: "fst (tryAcquireRoundProcessingLock now rid defaultStaleAfterMs L) \<and>
            later - now \<le> max 1 defaultStaleAfterMs"
  let ?L = "snd (tryAcquireRoundProcessingLock now rid defaultStaleAfterMs L)"
  have "locks ?L rid = Some now" "pool ?L" using acquire_sets_lock[OF p] a by simp_all
  then show "settleOneRound env later rid items ?L = (?L, [])"
    using a by (intro fresh_lock_stops_settlement) auto
next
  assume "\<not> pool L"
  then show "tryAcquireRoundProcessingLock now rid stale L = (True, L)"
    by (simp add: tryAcquireRoundProcessingLock_def)
qed

theorem round_lock_exclusion_witness:
  "fst (tryAcquireRoundProcessingLock 1000 ''SOL-0-5m'' defaultStaleAfterMs (emptyLedger True))
   \<and> \<not> fst (tryAcquireRoundProcessingLock 2000 ''SOL-0-5m'' defaultStaleAfterMs
           (snd (tryAcquireRoundProcessingLock 1000 ''SOL-0-5m'' defaultStaleAfterMs
                   (emptyLedger True))))"
proof -
  have p: "pool (emptyLedger True)" by (simp add: emptyLedger_def)
  have a: "fst (tryAcquireRoundProcessingLock 1000 ''SOL-0-5m'' defaultStaleAfterMs (emptyLedger True))"
    by (simp add: tryAcquireRoundProcessingLock_def emptyLedger_def)
  have b: "(2000::int) - 1000 \<le> max 1 defaultStaleAfterMs" by (simp add: defaultStaleAfterMs_def)
  from round_lock_exclusion[of "emptyLedger True" 1000 "''SOL-0-5m''" defaultStaleAfterMs 2000] p a b
  have "tryAcquireRoundProcessingLock 2000 ''SOL-0-5m'' defaultStaleAfterMs
           (snd (tryAcquireRoundProcessingLock 1000 ''SOL-0-5m'' defaultStaleAfterMs (emptyLedger True)))
         = (False, snd (tryAcquireRoundProcessingLock 1000 ''SOL-0-5m'' defaultStaleAfterMs (emptyLedger True)))"
    by blast
  then show ?thesis using a by simp
qed

text \<open>
  C6, as the specification words it, fails on the file ledger: two acquisitions of the
  same round at the same instant, with no release between them, both succeed.
\<close>

theorem file_lock_never_excludes:
  "fst (tryAcquireRoundProcessingLock 1000 ''SOL-0-5m'' defaultStaleAfterMs (emptyLedger False))
   \<and> fst (tryAcquireRoundProcessingLock 1000 ''SOL-0-5m'' defaultStaleAfterMs
           (snd (tryAcquireRoundProcessingLock 1000 ''SOL-0-5m'' defaultStaleAfterMs
                   (emptyLedger False))))"
  by (simp add: tryAcquireRoundProcessingLock_def emptyLedger_def)

subsection \<open>Joining a round\<close>

lemmas join_eval = POST_def payloadError_def invalidPayload_def exampleBody_def exampleJoinEnv_def
  lateJoinEnv_def exampleTx_def
  emptyLedger_def ALLOWED_DIRECTIONS_def ALLOWED_STAKES_def MIN_STAKE_USD_def MAX_STAKE_USD_def
  MAX_STAKE_LAMPORTS_def OPEN_ENTRY_SECONDS_def LOCK_SECONDS_def ENTRY_CYCLE_SECONDS_def
  SETTLEMENT_DURATION_SECONDS_def RATE_LIMIT_WINDOW_SECONDS_def
  MAX_ATTEMPTS_PER_WALLET_PER_WINDOW_def MAX_ATTEMPTS_PER_IP_PER_WINDOW_def
  showInt_def digitChar_def recordJoinAttempt_def countRecentJoinAttempts_def
  hasLedgerEntrySignature_def isTransferIx_def isMemoIx_def expectedMemo_def addLedgerEntry_def
  directionOf_def Let_def

text \<open>The attempt counters leave the entries, the settlements and the locks alone.\<close>

lemma recordJoinAttempt_keeps:
  "data (recordJoinAttempt now w ip L) = data L"
  "locks (recordJoinAttempt now w ip L) = locks L"
  "pool (recordJoinAttempt now w ip L) = pool L"
  by (auto simp: recordJoinAttempt_def Let_def split: option.splits)

lemma countRecentJoinAttempts_keeps:
  "data (snd (countRecentJoinAttempts now w ip win L)) = data L"
  "locks (snd (countRecentJoinAttempts now w ip win L)) = locks L"
  "pool (snd (countRecentJoinAttempts now w ip win L)) = pool L"
  by (auto simp: countRecentJoinAttempts_def Let_def split: option.splits)

lemma counted_keeps:
  "data (snd (countRecentJoinAttempts now w ip win (recordJoinAttempt now w ip L))) = data L"
  "locks (snd (countRecentJoinAttempts now w ip win (recordJoinAttempt now w ip L))) = locks L"
  by (simp_all add: countRecentJoinAttempts_keeps recordJoinAttempt_keeps)

text \<open>What the two calls leave in the counters.\<close>

lemma attempt_row_inserted:
  assumes "pool L"
  shows "join_attempts (snd (countRecentJoinAttempts now w ip win (recordJoinAttempt now w ip L)))
         = join_attempts L @ [\<lparr> attemptWallet = w, attemptIp = ip, created_at = now \<rparr>]"
  using assms by (simp add: countRecentJoinAttempts_def recordJoinAttempt_def Let_def)

lemma attempt_time_kept:
  assumes "\<not> pool L"
  shows "now \<in> set (inMemoryWalletJoinAttempts
                      (snd (countRecentJoinAttempts now w ip win (recordJoinAttempt now w ip L))) w)"
proof -
  have "now - max 1 win * 1000 \<le> now" by simp
  then show ?thesis
    using assms
    by (auto simp: countRecentJoinAttempts_def recordJoinAttempt_def Let_def split: option.splits)
qed

lemma payloadError_codes:
  assumes "payloadError env body = Some response"
  shows "\<exists>msg. response = ErrorResponse 400 msg \<or> response = ErrorResponse 503 msg"
  using assms by (auto simp: payloadError_def Let_def split: if_splits)

lemma POST_payloadError:
  assumes "payloadError env body = Some response"
  shows "POST env body L = (response, L)"
  using assms by (simp add: POST_def)

text \<open>
  What an accepted submission stores as \<^verbatim>\<open>joinedAtMs\<close>: the number the client sent, unless
  that is missing or 0; only then the server clock.
\<close>

lemma accepted_join_stores_client_time:
  assumes "fst (POST env body L) = OkResponse True"
  shows "\<exists>e. entries (data (snd (POST env body L))) = entries (data L) @ [e] \<and>
             LedgerEntry.joinedAtMs e =
               (if truthyNum (EntryBody.joinedAtMs body)
                then numValue (EntryBody.joinedAtMs body) else of_int (dateNow env))"
proof (cases "payloadError env body")
  case (Some response)
  then have "fst (POST env body L) = response" by (simp add: POST_def)
  then show ?thesis using assms payloadError_codes[OF Some] by auto
next
  case None
  let ?L1 = "snd (countRecentJoinAttempts (dateNow env) (EntryBody.wallet body) (requestIp env)
                    RATE_LIMIT_WINDOW_SECONDS
                    (recordJoinAttempt (dateNow env) (EntryBody.wallet body) (requestIp env) L))"
  have d: "data ?L1 = data L" by (rule counted_keeps)
  show ?thesis
    using assms None d
    by (auto simp: POST_def Let_def addLedgerEntry_def split: if_splits option.splits)
qed

text \<open>
  An accepted submission has its transfer on chain with a block time inside the open
  window; the server clock is not asked.
\<close>

lemma accepted_join_in_window:
  assumes "fst (POST env body L) = OkResponse True"
  shows "\<exists>tx bt. getParsedTransaction env (EntryBody.signature body) = Some tx \<and>
                 blockTime tx = Some bt \<and>
                 \<lfloor>numValue (EntryBody.roundStartMs body)\<rfloor> \<le> bt * 1000 \<and>
                 bt * 1000 < \<lfloor>numValue (EntryBody.roundStartMs body)\<rfloor> + OPEN_ENTRY_SECONDS * 1000"
proof (cases "payloadError env body")
  case (Some response)
  then have "fst (POST env body L) = response" by (simp add: POST_def)
  then show ?thesis using assms payloadError_codes[OF Some] by auto
next
  case None
  show ?thesis
    using assms None
    by (auto simp: POST_def Let_def split: if_splits option.splits)
qed

text \<open>
  C8. The stored join time is the time the server received the submission, not a time
  from the request. The handler does not do this: the example join is accepted at server
  time 31000 and stored with \<^verbatim>\<open>joinedAtMs = 5\<close>, the value of the payload.
\<close>

theorem client_time_is_stored:
  "fst (POST (exampleJoinEnv 30) exampleBody (emptyLedger False)) = OkResponse True
   \<and> map LedgerEntry.joinedAtMs
         (entries (data (snd (POST (exampleJoinEnv 30) exampleBody (emptyLedger False))))) = [5]
   \<and> dateNow (exampleJoinEnv 30) = 31000"
  by (simp add: join_eval)

text \<open>
  C9, as the code has it. The join time the handler holds against the open window is the
  block time of the transfer on chain. A submission whose transfer is found on chain with
  a block time before the round start or at or after the lock time adds no entry and
  changes no settlement and no lock. If a check of the payload fails, the answer is that
  check's rejection (status 400, or 503 from the production switch) and the ledger is
  untouched. Otherwise the join attempt has been recorded, as one more row of
  \<^verbatim>\<open>join_attempts\<close> on the pool, as one more time in the wallet's list without a pool, and
  the answer is the rate limit's 429, or \<^verbatim>\<open>created: false\<close> for a signature the ledger
  already has, or a rejection with status 400.
\<close>

theorem late_join_rejected:
  assumes "getParsedTransaction env (EntryBody.signature body) = Some tx"
    and "blockTime tx = Some bt"
    and "bt * 1000 < \<lfloor>numValue (EntryBody.roundStartMs body)\<rfloor> \<or>
         \<lfloor>numValue (EntryBody.roundStartMs body)\<rfloor> + OPEN_ENTRY_SECONDS * 1000 \<le> bt * 1000"
  shows "data (snd (POST env body L)) = data L
       \<and> locks (snd (POST env body L)) = locks L
       \<and> (case payloadError env body of
            Some response \<Rightarrow>
              POST env body L = (response, L) \<and>
              (\<exists>msg. response = ErrorResponse 400 msg \<or> response = ErrorResponse 503 msg)
          | None \<Rightarrow>
              (pool L \<longrightarrow>
                 join_attempts (snd (POST env body L)) = join_attempts L @
                   [\<lparr> attemptWallet = EntryBody.wallet body, attemptIp = requestIp env,
                      created_at = dateNow env \<rparr>])
            \<and> (\<not> pool L \<longrightarrow>
                 dateNow env \<in> set (inMemoryWalletJoinAttempts (snd (POST env body L))
                                       (EntryBody.wallet body)))
            \<and> (fst (POST env body L)
                  = ErrorResponse 429 ''Too many requests. Slow down and try again.''
               \<or> (fst (POST env body L) = OkResponse False \<and>
                   hasLedgerEntrySignature (EntryBody.signature body) L)
               \<or> (\<exists>msg. fst (POST env body L) = ErrorResponse 400 msg)))"
proof (cases "payloadError env body")
  case (Some response)
  then show ?thesis using POST_payloadError[OF Some, of L] payloadError_codes[OF Some] by simp
next
  case None
  let ?L1 = "snd (countRecentJoinAttempts (dateNow env) (EntryBody.wallet body) (requestIp env)
                    RATE_LIMIT_WINDOW_SECONDS
                    (recordJoinAttempt (dateNow env) (EntryBody.wallet body) (requestIp env) L))"
  have d: "data ?L1 = data L" and l: "locks ?L1 = locks L" by (rule counted_keeps)+
  have sig: "hasLedgerEntrySignature (EntryBody.signature body) ?L1
             = hasLedgerEntrySignature (EntryBody.signature body) L"
    by (simp add: hasLedgerEntrySignature_def d)
  have snd1: "snd (POST env body L) = ?L1"
    using None assms by (auto simp: POST_def Let_def split: if_splits option.splits)
  have resp: "fst (POST env body L)
                  = ErrorResponse 429 ''Too many requests. Slow down and try again.''
               \<or> (fst (POST env body L) = OkResponse False \<and>
                   hasLedgerEntrySignature (EntryBody.signature body) L)
               \<or> (\<exists>msg. fst (POST env body L) = ErrorResponse 400 msg)"
    using None assms sig by (auto simp: POST_def Let_def split: if_splits option.splits)
  have p: "pool L \<longrightarrow>
                 join_attempts (snd (POST env body L)) = join_attempts L @
                   [\<lparr> attemptWallet = EntryBody.wallet body, attemptIp = requestIp env,
                      created_at = dateNow env \<rparr>]"
    using attempt_row_inserted by (simp add: snd1)
  have m: "\<not> pool L \<longrightarrow>
                 dateNow env \<in> set (inMemoryWalletJoinAttempts (snd (POST env body L))
                                       (EntryBody.wallet body))"
    using attempt_time_kept by (simp add: snd1)
  show ?thesis using None d l resp p m by (simp add: snd1)
qed

theorem late_join_rejected_witness:
  "data (snd (POST (exampleJoinEnv 60) exampleBody (emptyLedger True))) = data (emptyLedger True)
   \<and> join_attempts (snd (POST (exampleJoinEnv 60) exampleBody (emptyLedger True)))
     = [\<lparr> attemptWallet = ''alice'', attemptIp = Some ''10.0.0.1'', created_at = 31000 \<rparr>]"
proof -
  have a: "getParsedTransaction (exampleJoinEnv 60) (EntryBody.signature exampleBody)
           = Some (exampleTx 60)"
    by (simp add: exampleJoinEnv_def)
  have b: "blockTime (exampleTx 60) = Some 60" by (simp add: exampleTx_def)
  have c: "60 * 1000 < \<lfloor>numValue (EntryBody.roundStartMs exampleBody)\<rfloor> \<or>
           \<lfloor>numValue (EntryBody.roundStartMs exampleBody)\<rfloor> + OPEN_ENTRY_SECONDS * 1000
             \<le> 60 * 1000"
    by (simp add: exampleBody_def OPEN_ENTRY_SECONDS_def)
  have pe: "payloadError (exampleJoinEnv 60) exampleBody = None" by (simp add: join_eval)
  have po: "pool (emptyLedger True)" "join_attempts (emptyLedger True) = []"
    by (simp_all add: emptyLedger_def)
  have ex: "EntryBody.wallet exampleBody = ''alice''" "requestIp (exampleJoinEnv 60) = Some ''10.0.0.1''"
    "dateNow (exampleJoinEnv 60) = 31000"
    by (simp_all add: exampleBody_def exampleJoinEnv_def)
  from late_join_rejected[OF a b c, of "emptyLedger True"]
  show ?thesis by (simp add: pe po ex)
qed

text \<open>
  C9, as the specification words it, fails in two ways. On the pool, the example join with
  block time 60 s, the lock time of the round, is rejected with status 400, and the ledger
  is not as before: the table \<^verbatim>\<open>join_attempts\<close> has a new row. And the time that is checked
  is not the time of the submission: the same join with block time 30 s, submitted at
  999999999 ms, long after the lock, is accepted and its entry stored.
\<close>

theorem rejected_join_is_recorded:
  "fst (POST (exampleJoinEnv 60) exampleBody (emptyLedger True))
     = ErrorResponse 400 ''Transaction was not submitted during open entry window.''
   \<and> join_attempts (snd (POST (exampleJoinEnv 60) exampleBody (emptyLedger True)))
     = [\<lparr> attemptWallet = ''alice'', attemptIp = Some ''10.0.0.1'', created_at = 31000 \<rparr>]
   \<and> snd (POST (exampleJoinEnv 60) exampleBody (emptyLedger True)) \<noteq> emptyLedger True
   \<and> dateNow lateJoinEnv = 999999999
   \<and> fst (POST lateJoinEnv exampleBody (emptyLedger True)) = OkResponse True
   \<and> map LedgerEntry.signature
       (entries (data (snd (POST lateJoinEnv exampleBody (emptyLedger True))))) = [''sig-alice'']"
  by (simp add: join_eval)

subsection \<open>Conservation in a settled round\<close>

text \<open>
  The conservation of the pool carried to the two settlements: with positive stakes (and
  distinct entry ids for the sim map), the payouts of a settled round plus its fee are the
  pool, in a win and in a refund; for the custody settlement when the pool is below \<open>2^52\<close>
  lamports.
\<close>

lemma recipientRows_nonempty:
  assumes "es \<noteq> []"
  shows "recipientRows (settleRoundSafe orc now es) es \<noteq> []"
proof (cases "settleRound orc now es")
  case None
  then show ?thesis using assms
    by (simp add: recipientRows_def settleRoundSafe_def buildRefundSettlement_def Let_def)
next
  case (Some snap)
  have dec: "(SimRoundSettlement.mode (settlement snap), SimRoundSettlement.winnerSide (settlement snap))
        = decideSim es (SimRoundSettlement.startPrice (settlement snap))
                       (SimRoundSettlement.endPrice (settlement snap))"
    using Some by (rule settleRound_decision)
  show ?thesis
  proof (cases "SimRoundSettlement.mode (settlement snap) = REFUND")
    case True
    then show ?thesis using assms Some by (simp add: recipientRows_def settleRoundSafe_def)
  next
    case False
    then have "(SimRoundSettlement.winnerSide (settlement snap) = Some UP \<and>
                filter (\<lambda>item. SimEntry.direction item = UP) es \<noteq> []) \<or>
               (SimRoundSettlement.winnerSide (settlement snap) = Some DOWN \<and>
                filter (\<lambda>item. SimEntry.direction item = DOWN) es \<noteq> [])"
      using dec by (auto simp: decideSim_def Let_def split: if_splits)
    then show ?thesis using False Some
      by (auto simp: recipientRows_def settleRoundSafe_def)
  qed
qed

lemma sim_settlement_conserves:
  assumes "es \<noteq> []" and "\<forall>e \<in> set es. 0 < stakeBucks e" and "distinct (map entryId es)"
  shows "sum_list (map snd (payoutsByEntryId (settleRoundSafe orc now es)))
           + feeCents (settleRoundSafe orc now es) = totalCentsOf es"
proof -
  let ?snap = "settleRoundSafe orc now es"
  let ?rr = "recipientRows ?snap es"
  have total: "0 < totalCentsOf es" using assms(1,2) by (rule totalCentsOf_pos)
  have fee: "0 \<le> feeCents ?snap" "feeCents ?snap < totalCentsOf es"
    using settleRoundSafe_fee_bound[OF total] by auto
  have sub: "set ?rr \<subseteq> set es" by (auto simp: recipientRows_def)
  have ne: "recipientsOf ?rr \<noteq> []"
    using recipientRows_nonempty[OF assms(1)] by (simp add: recipientsOf_def)
  have pos: "\<forall>r \<in> set (recipientsOf ?rr). 0 < snd r"
    using sub assms(2) by (auto simp: recipientsOf_def stakeCents_def)
  have "distinct (map entryId ?rr)" using assms(3) by (auto simp: recipientRows_def distinct_map_filter)
  then have dist: "distinct (map fst (recipientsOf ?rr))" by (simp add: recipientsOf_def comp_def)
  have "sum_list (map snd (proRataCents (recipientsOf ?rr) (totalCentsOf es - feeCents ?snap)
          (sum_list (map snd (recipientsOf ?rr))))) = totalCentsOf es - feeCents ?snap"
    using dist _ ne pos by (rule proRataCents_sum) (use fee in simp)
  then show ?thesis
    using settleRoundSafe_payouts[of orc now es] fee by (simp add: sum_recipientsOf)
qed

lemma merge_step_positive:
  assumes "\<forall>p \<in> set merged. 0 < snd p" "0 < (stake :: int)"
  shows "\<forall>p \<in> set (map_set w ((case map_of merged w of None \<Rightarrow> 0 | Some v \<Rightarrow> v) + stake) merged).
           0 < snd p"
proof
  fix p assume "p \<in> set (map_set w ((case map_of merged w of None \<Rightarrow> 0 | Some v \<Rightarrow> v) + stake) merged)"
  then have "p = (w, (case map_of merged w of None \<Rightarrow> 0 | Some v \<Rightarrow> v) + stake) \<or> p \<in> set merged"
    by (rule map_set_mem)
  moreover have "0 \<le> (case map_of merged w of None \<Rightarrow> 0 | Some v \<Rightarrow> v)"
  proof (cases "map_of merged w")
    case None then show ?thesis by simp
  next
    case (Some v)
    then have "(w, v) \<in> set merged" by (rule map_of_SomeD)
    then show ?thesis using assms(1) Some by force
  qed
  ultimately show "0 < snd p" using assms by auto
qed

lemma map_set_nonempty: "map_set k v m \<noteq> []"
  by (cases m) (auto split: if_splits)

lemma merge_fold_positive:
  assumes "\<forall>p \<in> set merged. 0 < snd p" "\<forall>e \<in> set items. 0 < LedgerEntry.stakeLamports e"
  shows "\<forall>p \<in> set (foldl (\<lambda>merged entry.
                 map_set (LedgerEntry.wallet entry)
                   ((case map_of merged (LedgerEntry.wallet entry) of None \<Rightarrow> 0 | Some v \<Rightarrow> v)
                      + LedgerEntry.stakeLamports entry) merged) merged items). 0 < snd p"
  using assms
proof (induction items arbitrary: merged)
  case Nil then show ?case by simp
next
  case (Cons e items)
  have "\<forall>p \<in> set (map_set (LedgerEntry.wallet e)
            ((case map_of merged (LedgerEntry.wallet e) of None \<Rightarrow> 0 | Some v \<Rightarrow> v)
               + LedgerEntry.stakeLamports e) merged). 0 < snd p"
    using Cons.prems by (intro merge_step_positive) auto
  then show ?case using Cons.IH Cons.prems by simp
qed

lemma merge_fold_nonempty:
  "items \<noteq> [] \<or> merged \<noteq> [] \<Longrightarrow>
   foldl (\<lambda>merged entry.
                 map_set (LedgerEntry.wallet entry)
                   ((case map_of merged (LedgerEntry.wallet entry) of None \<Rightarrow> 0 | Some v \<Rightarrow> v)
                      + LedgerEntry.stakeLamports entry) merged) merged items \<noteq> []"
proof (induction items arbitrary: merged)
  case Nil then show ?case by simp
next
  case (Cons e items)
  show ?case using Cons.IH[of "map_set (LedgerEntry.wallet e)
            ((case map_of merged (LedgerEntry.wallet e) of None \<Rightarrow> 0 | Some v \<Rightarrow> v)
               + LedgerEntry.stakeLamports e) merged"] map_set_nonempty by simp
qed

lemma mergeByWallet_ok:
  assumes "items \<noteq> []" "\<forall>e \<in> set items. 0 < LedgerEntry.stakeLamports e"
  shows "mergeByWallet items \<noteq> [] \<and> (\<forall>w \<in> set (mergeByWallet items). 0 < Recipient.lamports w)"
  using merge_fold_nonempty[of items "[]"] merge_fold_positive[of "[]" items] assms
  by (auto simp: mergeByWallet_def)

lemma fee_le_pool:
  assumes "0 \<le> sumLamports items" "sumLamports items < 2 ^ 52"
  shows "0 \<le> distributableOf items \<and> distributableOf items < 2 ^ 52 \<and>
         distributableOf items + feeOf items = sumLamports items"
  using fee_conserved[OF assms, of FEE_BPS]
  by (simp add: distributableOf_def feeOf_def FEE_BPS_def)

lemma custody_settlement_conserves:
  assumes "items \<noteq> []" and "\<forall>e \<in> set items. 0 < LedgerEntry.stakeLamports e"
    and "sumLamports items < 2 ^ 52"
  shows "sum_list (map Recipient.lamports (snd (snd (decideCustody items startP endP))))
           + feeOf items = sumLamports items"
proof -
  let ?up = "filter (\<lambda>item. LedgerEntry.direction item = UP) items"
  let ?down = "filter (\<lambda>item. LedgerEntry.direction item = DOWN) items"
  have d: "0 \<le> distributableOf items" "distributableOf items < 2 ^ 52"
    "distributableOf items + feeOf items = sumLamports items"
    using fee_le_pool[OF sumLamports_nonneg[OF assms(2)] assms(3)] by simp_all
  show ?thesis
  proof (cases "sumLamports ?up = 0 \<or> sumLamports ?down = 0 \<or> endP = startP")
    case True
    have "sum_list (map Recipient.lamports (addProRataPayouts (mergeByWallet items)
            (distributableOf items) (sum_list (map Recipient.lamports (mergeByWallet items)))))
          = distributableOf items"
      using d(1,2) mergeByWallet_ok[OF assms(1,2)] by (intro addProRataPayouts_sum) auto
    then show ?thesis using True d(3) by (simp add: decideCustody_def Let_def)
  next
    case False
    let ?side = "if endP > startP then UP else DOWN"
    let ?w = "toRecipients (if ?side = UP then ?up else ?down)"
    have ne: "?up \<noteq> []" "?down \<noteq> []" using False by (auto simp: sumLamports_def)
    then have wne: "?w \<noteq> []" by (simp add: toRecipients_def)
    have wpos: "\<forall>w \<in> set ?w. 0 < Recipient.lamports w"
      using assms(2) by (auto simp: toRecipients_def)
    have "sum_list (map Recipient.lamports (addProRataPayouts ?w
            (distributableOf items) (sum_list (map Recipient.lamports ?w))))
          = distributableOf items"
      using d(1,2) wne wpos by (rule addProRataPayouts_sum)
    then show ?thesis using False d(3) by (simp add: decideCustody_def Let_def)
  qed
qed

end
